theory Spec2Isabelle
  imports Complex_Main "HOL-Library.Sublist" "HOL-Library.Multiset"
begin

section \<open>JavaScript strings\<close>

text \<open>
  Strings are character lists. The model covers ASCII text: \<open>toLowerCase\<close> maps the
  letters A to Z and leaves every other character alone, and \<open>trim\<close> removes the ASCII
  white space (space, tab, line feed, vertical tab, form feed, carriage return) at both
  ends. JavaScript does the same on these characters.
\<close>

definition toLowerCase_char :: "char \<Rightarrow> char" where
  "toLowerCase_char c =
     (case map_of (zip ''ABCDEFGHIJKLMNOPQRSTUVWXYZ'' ''abcdefghijklmnopqrstuvwxyz'') c of
        Some l \<Rightarrow> l
      | None \<Rightarrow> c)"

definition toLowerCase :: "string \<Rightarrow> string" where
  "toLowerCase s = map toLowerCase_char s"

definition isSpace :: "char \<Rightarrow> bool" where
  "isSpace c \<longleftrightarrow> c \<in> set [CHR '' '', CHR 0x09, CHR 0x0A, CHR 0x0B, CHR 0x0C, CHR 0x0D]"

definition trim :: "string \<Rightarrow> string" where
  "trim s = rev (dropWhile isSpace (rev (dropWhile isSpace s)))"

text \<open>\<open>Array.prototype.join\<close> with a separator.\<close>

fun join :: "string \<Rightarrow> string list \<Rightarrow> string" where
  "join sep [] = []"
| "join sep [x] = x"
| "join sep (x # y # ys) = x @ sep @ join sep (y # ys)"

text \<open>
  \<open>String.prototype.split\<close> with a string separator: the text is cut at every occurrence
  of the separator, found from left to right without overlap; the empty separator cuts
  between all characters. \<open>split_from sep acc s\<close> has read \<open>acc\<close> since the last cut.
\<close>

function split_from :: "string \<Rightarrow> string \<Rightarrow> string \<Rightarrow> string list" where
  "split_from sep acc [] = [acc]"
| "split_from sep acc (c # cs) =
     (if sep \<noteq> [] \<and> prefix sep (c # cs)
      then acc # split_from sep [] (drop (length sep) (c # cs))
      else split_from sep (acc @ [c]) cs)"
  by pat_completeness auto
termination
  by (relation "measure (\<lambda>(sep, acc, s). length s)") auto

definition split :: "string \<Rightarrow> string \<Rightarrow> string list" where
  "split sep s = (if sep = [] then map (\<lambda>c. [c]) s else split_from sep [] s)"

text \<open>\<open>[...new Set(xs)]\<close>: the distinct elements in the order of their first occurrence.\<close>

fun new_Set :: "'a list \<Rightarrow> 'a list" where
  "new_Set [] = []"
| "new_Set (x # xs) = x # new_Set (filter (\<lambda>y. y \<noteq> x) xs)"

text \<open>\<open>String(n)\<close> of a natural number: its decimal digits.\<close>

definition digit_char :: "nat \<Rightarrow> char" where
  "digit_char d = ''0123456789'' ! d"

function String_of_nat :: "nat \<Rightarrow> string" where
  "String_of_nat n =
     (if n < 10 then [digit_char n] else String_of_nat (n div 10) @ [digit_char (n mod 10)])"
  by pat_completeness auto
termination
  by (relation "measure (\<lambda>n. n)") auto

declare String_of_nat.simps [simp del]

text \<open>\<open>s.padStart(2, '0')\<close>.\<close>

definition padStart2 :: "string \<Rightarrow> string" where
  "padStart2 s = replicate (2 - length s) CHR ''0'' @ s"

section \<open>The relational store: tables, index and triggers (db/schema.ts)\<close>

text \<open>
  A row of \<open>memories\<close>, a row of \<open>keywords\<close> (the pair of memory id and keyword), and a
  document of the full-text table \<open>memories_fts\<close>. The timestamp \<open>created_at\<close> is the
  clock reading (in seconds) that \<open>CURRENT_TIMESTAMP\<close> gave; every statement that reads
  the clock takes the reading as its argument \<open>now\<close>. A document's summary is \<open>None\<close>
  when the trigger's sub-select of the summary found no row (SQL NULL).
\<close>

record memory_row =
  row_id :: nat
  file_path :: string
  summary :: string
  created_at :: nat

record fts_doc =
  rowid :: nat
  doc_summary :: "string option"
  doc_keywords :: string

text \<open>
  The connection's state: the three tables in the order of their rows, the AUTOINCREMENT
  counter of \<open>memories\<close> (\<open>sqlite_sequence\<close>) and whether the connection enforces foreign
  keys.
\<close>

record database =
  memories :: "memory_row list"
  keywords_table :: "(nat \<times> string) list"
  memories_fts :: "fts_doc list"
  sqlite_sequence :: nat
  foreign_keys :: bool

datatype sql_error =
    UniqueConstraintFailed string
  | ForeignKeyConstraintFailed
  | FtsSyntaxError string

text \<open>
  \<open>openDatabase\<close> on a new file, followed by \<open>initializeSchema\<close>: empty tables. The
  pragmas \<open>openDatabase\<close> sets (journal mode, synchronous, cache size, temp store) do not
  touch the foreign-key setting, so the connection keeps the driver's default: the
  SQLite build of better-sqlite3 enforces foreign keys (SQLITE_DEFAULT_FOREIGN_KEYS=1).
  The behaviour of a connection that does not enforce them is modelled as well and is
  selected by the field \<open>foreign_keys\<close>.
\<close>

definition openDatabase :: database where
  "openDatabase =
     \<lparr>memories = [], keywords_table = [], memories_fts = [], sqlite_sequence = 0,
      foreign_keys = True\<rparr>"

text \<open>
  \<open>initializeSchema\<close> creates the tables and triggers when they are missing and leaves
  every existing row alone. The triggers it declares are the functions below.
\<close>

definition initializeSchema :: "database \<Rightarrow> database" where
  "initializeSchema db = db"

text \<open>The keywords of one memory, in the order of the table.\<close>

definition keywords_of :: "database \<Rightarrow> nat \<Rightarrow> string list" where
  "keywords_of db mid = map snd (filter (\<lambda>kw. fst kw = mid) (keywords_table db))"

text \<open>
  \<open>GROUP_CONCAT(keyword, sep)\<close> is NULL over no rows; the model concatenates in table
  order (SQLite leaves the order open). \<open>COALESCE(x, d)\<close> replaces NULL.
\<close>

definition group_concat :: "string \<Rightarrow> string list \<Rightarrow> string option" where
  "group_concat sep ks = (if ks = [] then None else Some (join sep ks))"

definition coalesce :: "string option \<Rightarrow> string \<Rightarrow> string" where
  "coalesce x d = (case x of None \<Rightarrow> d | Some v \<Rightarrow> v)"

text \<open>\<open>(SELECT summary FROM memories WHERE id = mid)\<close>.\<close>

definition select_summary :: "database \<Rightarrow> nat \<Rightarrow> string option" where
  "select_summary db mid =
     (case filter (\<lambda>r. row_id r = mid) (memories db) of
        [] \<Rightarrow> None
      | r # _ \<Rightarrow> Some (summary r))"

text \<open>
  Modelled from the spec: the FTS5 engine is not part of the repository. The index is the
  list of its documents; \<open>INSERT INTO memories_fts(rowid, summary, keywords)\<close> adds a
  document and the command \<open>INSERT INTO memories_fts(memories_fts, rowid) VALUES
  ('delete', rid)\<close> removes the documents of that rowid ("remove the existing index
  document for that id").
\<close>

definition fts_insert :: "fts_doc \<Rightarrow> database \<Rightarrow> database" where
  "fts_insert d db = db\<lparr>memories_fts := memories_fts db @ [d]\<rparr>"

definition fts_delete :: "nat \<Rightarrow> database \<Rightarrow> database" where
  "fts_delete rid db = db\<lparr>memories_fts := filter (\<lambda>d. rowid d \<noteq> rid) (memories_fts db)\<rparr>"

text \<open>The aggregated keyword column the triggers compute for a memory.\<close>

definition keyword_column :: "database \<Rightarrow> nat \<Rightarrow> string" where
  "keyword_column db mid = coalesce (group_concat '' '' (keywords_of db mid)) ''''"

text \<open>Trigger \<open>memories_ai\<close>, AFTER INSERT ON memories.\<close>

definition memories_ai :: "memory_row \<Rightarrow> database \<Rightarrow> database" where
  "memories_ai new db =
     fts_insert \<lparr>rowid = row_id new, doc_summary = Some (summary new),
                 doc_keywords = keyword_column db (row_id new)\<rparr> db"

text \<open>Trigger \<open>memories_ad\<close>, AFTER DELETE ON memories.\<close>

definition memories_ad :: "memory_row \<Rightarrow> database \<Rightarrow> database" where
  "memories_ad old db = fts_delete (row_id old) db"

text \<open>Trigger \<open>memories_au\<close>, AFTER UPDATE ON memories.\<close>

definition memories_au :: "memory_row \<Rightarrow> memory_row \<Rightarrow> database \<Rightarrow> database" where
  "memories_au old new db =
     (let db1 = fts_delete (row_id old) db
      in fts_insert \<lparr>rowid = row_id new, doc_summary = Some (summary new),
                      doc_keywords = keyword_column db1 (row_id new)\<rparr> db1)"

text \<open>
  Triggers \<open>keywords_ai\<close> and \<open>keywords_ad\<close>, AFTER INSERT and AFTER DELETE ON keywords:
  both delete the documents of the memory and insert one built from the summary
  sub-select and the keywords that are in the table now.
\<close>

definition keywords_ai :: "nat \<times> string \<Rightarrow> database \<Rightarrow> database" where
  "keywords_ai new db =
     (let db1 = fts_delete (fst new) db
      in fts_insert \<lparr>rowid = fst new, doc_summary = select_summary db1 (fst new),
                      doc_keywords = keyword_column db1 (fst new)\<rparr> db1)"

definition keywords_ad :: "nat \<times> string \<Rightarrow> database \<Rightarrow> database" where
  "keywords_ad old db =
     (let db1 = fts_delete (fst old) db
      in fts_insert \<lparr>rowid = fst old, doc_summary = select_summary db1 (fst old),
                      doc_keywords = keyword_column db1 (fst old)\<rparr> db1)"

section \<open>The SQL statements of the repository\<close>

text \<open>
  \<open>INSERT INTO memories (file_path, summary) VALUES (?, ?) RETURNING id\<close>: the path is
  UNIQUE; the id is one more than the largest id the table has or ever had
  (AUTOINCREMENT); \<open>created_at\<close> defaults to the clock.
\<close>

definition insert_into_memories ::
  "string \<Rightarrow> string \<Rightarrow> nat \<Rightarrow> database \<Rightarrow> sql_error + (nat \<times> database)" where
  "insert_into_memories fp s now db =
     (if fp \<in> set (map file_path (memories db)) then Inl (UniqueConstraintFailed ''memories.file_path'')
      else
        let i = Suc (fold max (map row_id (memories db)) (sqlite_sequence db));
            new = \<lparr>row_id = i, file_path = fp, summary = s, created_at = now\<rparr>;
            db1 = db\<lparr>memories := memories db @ [new], sqlite_sequence := i\<rparr>
        in Inr (i, memories_ai new db1))"

text \<open>
  \<open>INSERT INTO keywords (memory_id, keyword) VALUES (?, ?)\<close>: the pair is the primary
  key; with foreign keys enforced the memory must exist.
\<close>

definition insert_into_keywords ::
  "nat \<Rightarrow> string \<Rightarrow> database \<Rightarrow> sql_error + database" where
  "insert_into_keywords mid k db =
     (if (mid, k) \<in> set (keywords_table db)
      then Inl (UniqueConstraintFailed ''keywords.memory_id, keywords.keyword'')
      else if foreign_keys db \<and> mid \<notin> set (map row_id (memories db))
      then Inl ForeignKeyConstraintFailed
      else Inr (keywords_ai (mid, k) (db\<lparr>keywords_table := keywords_table db @ [(mid, k)]\<rparr>)))"

text \<open>
  \<open>DELETE FROM keywords WHERE memory_id = ?\<close>: the matching rows go one at a time, and
  after each one its AFTER DELETE trigger runs.
\<close>

fun delete_keyword_rows :: "(nat \<times> string) list \<Rightarrow> database \<Rightarrow> database" where
  "delete_keyword_rows [] db = db"
| "delete_keyword_rows (kw # kws) db =
     delete_keyword_rows kws (keywords_ad kw (db\<lparr>keywords_table := remove1 kw (keywords_table db)\<rparr>))"

definition delete_from_keywords :: "nat \<Rightarrow> database \<Rightarrow> database" where
  "delete_from_keywords mid db =
     delete_keyword_rows (filter (\<lambda>kw. fst kw = mid) (keywords_table db)) db"

text \<open>
  \<open>UPDATE memories SET summary = ?, created_at = CURRENT_TIMESTAMP WHERE id = ?\<close>.
\<close>

definition update_memories :: "string \<Rightarrow> nat \<Rightarrow> nat \<Rightarrow> database \<Rightarrow> database" where
  "update_memories s now mid db =
     (case filter (\<lambda>r. row_id r = mid) (memories db) of
        [] \<Rightarrow> db
      | old # _ \<Rightarrow>
          let new = old\<lparr>summary := s, created_at := now\<rparr>;
              db1 = db\<lparr>memories :=
                      map (\<lambda>r. if row_id r = mid then r\<lparr>summary := s, created_at := now\<rparr> else r)
                        (memories db)\<rparr>
          in memories_au old new db1)"

text \<open>
  \<open>DELETE FROM memories WHERE id = ?\<close>, returning the number of rows changed. SQLite
  deletes the row, then runs the foreign key action (ON DELETE CASCADE on \<open>keywords\<close>,
  whose own AFTER DELETE trigger fires for every row it removes), then the AFTER DELETE
  trigger of \<open>memories\<close>.
\<close>

definition delete_from_memories :: "nat \<Rightarrow> database \<Rightarrow> nat \<times> database" where
  "delete_from_memories mid db =
     (case filter (\<lambda>r. row_id r = mid) (memories db) of
        [] \<Rightarrow> (0, db)
      | old # _ \<Rightarrow>
          let db1 = db\<lparr>memories := filter (\<lambda>r. row_id r \<noteq> mid) (memories db)\<rparr>;
              db2 = (if foreign_keys db then delete_from_keywords mid db1 else db1)
          in (1, memories_ad old db2))"

section \<open>MemoryRepository (repositories/memoryRepo.ts)\<close>

text \<open>
  Every method that runs in \<open>db.transaction\<close> returns either the error that rolled the
  transaction back (the caller keeps the database it had) or its value and the committed
  database.
\<close>

fun insert_keywords :: "nat \<Rightarrow> string list \<Rightarrow> database \<Rightarrow> sql_error + database" where
  "insert_keywords mid [] db = Inr db"
| "insert_keywords mid (k # ks) db =
     (case insert_into_keywords mid k db of
        Inl e \<Rightarrow> Inl e
      | Inr db' \<Rightarrow> insert_keywords mid ks db')"

definition repo_insert ::
  "string \<Rightarrow> string \<Rightarrow> string list \<Rightarrow> nat \<Rightarrow> database \<Rightarrow> sql_error + (nat \<times> database)" where
  "repo_insert fp s kws now db =
     (case insert_into_memories fp s now db of
        Inl e \<Rightarrow> Inl e
      | Inr (i, db1) \<Rightarrow>
          (case (if kws \<noteq> [] then insert_keywords i kws db1 else Inr db1) of
             Inl e \<Rightarrow> Inl e
           | Inr db2 \<Rightarrow> Inr (i, db2)))"

text \<open>
  \<open>update(id, summary?, keywords?)\<close>: an argument left out is \<open>None\<close>. \<open>if (summary)\<close> is
  false for a missing and for an empty summary; \<open>if (keywords)\<close> is true for every
  array, the empty one too.
\<close>

definition repo_update ::
  "nat \<Rightarrow> string option \<Rightarrow> string list option \<Rightarrow> nat \<Rightarrow> database
     \<Rightarrow> sql_error + (bool \<times> database)" where
  "repo_update mid s_opt kws_opt now db =
     (let db1 = (case s_opt of
                   None \<Rightarrow> db
                 | Some s \<Rightarrow> if s \<noteq> [] then update_memories s now mid db else db)
      in case (case kws_opt of
                 None \<Rightarrow> Inr db1
               | Some kws \<Rightarrow>
                   let db2 = delete_from_keywords mid db1
                   in if kws \<noteq> [] then insert_keywords mid kws db2 else Inr db2) of
           Inl e \<Rightarrow> Inl e
         | Inr db3 \<Rightarrow> Inr (mid \<in> set (map row_id (memories db3)), db3))"

text \<open>
  The rows \<open>get\<close> and \<open>list\<close> return: the columns of the memory, the \<open>kws\<close> column
  (\<open>GROUP_CONCAT(k.keyword, ', ')\<close> over the LEFT JOIN, NULL without keywords) and the
  property \<open>keywords\<close>, which is \<open>row.kws ? row.kws.split(', ') : []\<close>.
\<close>

record memory_view = memory_row +
  kws :: "string option"
  keywords_prop :: "string list"

definition with_keywords :: "database \<Rightarrow> memory_row \<Rightarrow> memory_view" where
  "with_keywords db r =
     (let k = group_concat '', '' (keywords_of db (row_id r))
      in \<lparr>row_id = row_id r, file_path = file_path r, summary = summary r,
          created_at = created_at r, kws = k,
          keywords_prop = (case k of
                             None \<Rightarrow> []
                           | Some s \<Rightarrow> if s \<noteq> [] then split '', '' s else [])\<rparr>)"

definition repo_get :: "nat \<Rightarrow> database \<Rightarrow> memory_view option" where
  "repo_get mid db =
     (case filter (\<lambda>r. row_id r = mid) (memories db) of
        [] \<Rightarrow> None
      | r # _ \<Rightarrow> Some (with_keywords db r))"

text \<open>
  \<open>list\<close>: ORDER BY created_at DESC, LIMIT, OFFSET. Rows of equal timestamp stay in table
  order (the sort is stable; SQLite leaves their order open).
\<close>

definition repo_list :: "nat \<Rightarrow> nat \<Rightarrow> database \<Rightarrow> memory_view list" where
  "repo_list limit offset db =
     map (with_keywords db)
       (take limit (drop offset (sort_key (\<lambda>r. - int (created_at r)) (memories db))))"

definition repo_count :: "database \<Rightarrow> nat" where
  "repo_count db = length (memories db)"

definition repo_delete :: "nat \<Rightarrow> database \<Rightarrow> bool \<times> database" where
  "repo_delete mid db = (let (changes, db') = delete_from_memories mid db in (0 < changes, db'))"

section \<open>Paths (the POSIX flavour of Node's \<open>path\<close> module)\<close>

text \<open>
  A path is cut into its segments at every slash. \<open>normalize_segments\<close> is the loop of
  Node's \<open>normalizeString\<close>: it drops empty and \<open>.\<close> segments and lets \<open>..\<close> remove the
  segment before it; above the start \<open>..\<close> is kept only when \<open>allowAboveRoot\<close> holds.
  The stack \<open>st\<close> holds the segments kept so far, last one first.
\<close>

definition segments :: "string \<Rightarrow> string list" where
  "segments p = split ''/'' p"

fun normalize_segments :: "bool \<Rightarrow> string list \<Rightarrow> string list \<Rightarrow> string list" where
  "normalize_segments allowAboveRoot st [] = rev st"
| "normalize_segments allowAboveRoot st (s # ss) =
     (if s = [] \<or> s = ''.'' then normalize_segments allowAboveRoot st ss
      else if s = ''..'' then
        (case st of
           [] \<Rightarrow> normalize_segments allowAboveRoot (if allowAboveRoot then [''..''] else []) ss
         | t # ts \<Rightarrow>
             if t = ''..''
             then normalize_segments allowAboveRoot (if allowAboveRoot then ''..'' # st else st) ss
             else normalize_segments allowAboveRoot ts ss)
      else normalize_segments allowAboveRoot (s # st) ss)"

definition normalizeString :: "string \<Rightarrow> bool \<Rightarrow> string" where
  "normalizeString p allowAboveRoot =
     join ''/'' (normalize_segments allowAboveRoot [] (segments p))"

definition isAbsolute :: "string \<Rightarrow> bool" where
  "isAbsolute p \<longleftrightarrow> p \<noteq> [] \<and> hd p = CHR ''/''"

definition path_normalize :: "string \<Rightarrow> string" where
  "path_normalize p =
     (if p = [] then ''.''
      else
        let trailingSeparator = (last p = CHR ''/'');
            q = normalizeString p (\<not> isAbsolute p)
        in if q = [] then (if isAbsolute p then ''/'' else if trailingSeparator then ''./'' else ''.'')
           else (if isAbsolute p then ''/'' else []) @ q @ (if trailingSeparator then ''/'' else []))"

text \<open>\<open>path.join(...args)\<close>: the non-empty arguments, joined by slashes and normalized.\<close>

definition path_join :: "string list \<Rightarrow> string" where
  "path_join args =
     (case filter (\<lambda>a. a \<noteq> []) args of
        [] \<Rightarrow> ''.''
      | parts \<Rightarrow> path_normalize (join ''/'' parts))"

text \<open>
  \<open>path.resolve(p)\<close> in a process whose working directory is \<open>wd\<close>: an absolute \<open>p\<close>
  stands alone, any other is taken below the working directory.
\<close>

definition path_resolve :: "string \<Rightarrow> string \<Rightarrow> string" where
  "path_resolve wd p =
     (let rel = (if p = [] then [] else p @ ''/'');
          (resolvedPath, resolvedAbsolute) =
            (if isAbsolute p then (rel, True)
             else if wd = [] then (rel, False)
             else (wd @ ''/'' @ rel, isAbsolute wd));
          q = normalizeString resolvedPath (\<not> resolvedAbsolute)
      in if resolvedAbsolute then ''/'' @ q else if q \<noteq> [] then q else ''.'')"

text \<open>\<open>path.basename(p)\<close>: what follows the last slash, trailing slashes set aside.\<close>

definition basename :: "string \<Rightarrow> string" where
  "basename p =
     rev (takeWhile (\<lambda>c. c \<noteq> CHR ''/'') (dropWhile (\<lambda>c. c = CHR ''/'') (rev p)))"

definition sep :: string where
  "sep = ''/''"

definition startsWith :: "string \<Rightarrow> string \<Rightarrow> bool" where
  "startsWith s pre \<longleftrightarrow> prefix pre s"

definition endsWith :: "string \<Rightarrow> string \<Rightarrow> bool" where
  "endsWith s suf \<longleftrightarrow> suffix suf s"

section \<open>The file system\<close>

text \<open>
  A node is a regular file (its bytes, and whether the process may read it) or a
  directory. The file system maps resolved absolute paths to nodes; the root directory
  is always there. A later binding of a path hides an earlier one. Every operation
  resolves its path against the working directory first. A failing operation returns the
  text of the exception Node throws. Symbolic links, the permissions of directories,
  write permissions and short writes are outside the model: every node of the file
  system can be seen, and a write to a place that can hold a file succeeds.
\<close>

datatype node = File string bool | Dir

record filesystem =
  cwd :: string
  dir_size :: nat
  nodes :: "(string \<times> node) list"

definition lookup :: "filesystem \<Rightarrow> string \<Rightarrow> node option" where
  "lookup fs p =
     (let rp = path_resolve (cwd fs) p
      in if rp = ''/'' then Some Dir else map_of (nodes fs) rp)"

definition existsSync :: "filesystem \<Rightarrow> string \<Rightarrow> bool" where
  "existsSync fs p \<longleftrightarrow> lookup fs p \<noteq> None"

text \<open>The directories above a resolved path, outermost first, and then the path itself.\<close>

definition ancestors :: "string \<Rightarrow> string list" where
  "ancestors rp =
     (let segs = normalize_segments False [] (segments rp)
      in map (\<lambda>k. ''/'' @ join ''/'' (take k segs)) [1 ..< length segs] @ [rp])"

definition dirname_resolved :: "string \<Rightarrow> string" where
  "dirname_resolved rp = ''/'' @ join ''/'' (butlast (normalize_segments False [] (segments rp)))"

text \<open>\<open>mkdirSync(p, { recursive: true })\<close>.\<close>

fun mkdir_each :: "string list \<Rightarrow> (string \<times> node) list \<Rightarrow> string + (string \<times> node) list" where
  "mkdir_each [] ns = Inr ns"
| "mkdir_each (a # as) ns =
     (case map_of ns a of
        None \<Rightarrow> mkdir_each as ((a, Dir) # ns)
      | Some Dir \<Rightarrow> mkdir_each as ns
      | Some (File _ _) \<Rightarrow> Inl (''Error: ENOTDIR: not a directory, mkdir '' @ a))"

definition mkdirSync :: "filesystem \<Rightarrow> string \<Rightarrow> string + filesystem" where
  "mkdirSync fs p =
     (case mkdir_each (ancestors (path_resolve (cwd fs) p)) (nodes fs) of
        Inl e \<Rightarrow> Inl e
      | Inr ns \<Rightarrow> Inr (fs\<lparr>nodes := ns\<rparr>))"

text \<open>\<open>writeFileSync(p, content, 'utf-8')\<close>: creates the file or replaces its bytes.\<close>

definition writeFileSync :: "filesystem \<Rightarrow> string \<Rightarrow> string \<Rightarrow> string + filesystem" where
  "writeFileSync fs p content =
     (let rp = path_resolve (cwd fs) p
      in case lookup fs (dirname_resolved rp) of
           None \<Rightarrow> Inl (''Error: ENOENT: no such file or directory, open '' @ p)
         | Some (File _ _) \<Rightarrow> Inl (''Error: ENOTDIR: not a directory, open '' @ p)
         | Some Dir \<Rightarrow>
             (case lookup fs p of
                Some Dir \<Rightarrow> Inl (''Error: EISDIR: illegal operation on a directory, open '' @ p)
              | Some (File _ r) \<Rightarrow> Inr (fs\<lparr>nodes := (rp, File content r) # nodes fs\<rparr>)
              | None \<Rightarrow> Inr (fs\<lparr>nodes := (rp, File content True) # nodes fs\<rparr>)))"

text \<open>\<open>statSync(p).size\<close> and \<open>readFileSync(p, 'utf-8')\<close>.\<close>

definition stat_size :: "filesystem \<Rightarrow> string \<Rightarrow> string + nat" where
  "stat_size fs p =
     (case lookup fs p of
        None \<Rightarrow> Inl (''Error: ENOENT: no such file or directory, stat '' @ p)
      | Some Dir \<Rightarrow> Inr (dir_size fs)
      | Some (File bytes _) \<Rightarrow> Inr (length bytes))"

definition readFileSync :: "filesystem \<Rightarrow> string \<Rightarrow> string + string" where
  "readFileSync fs p =
     (case lookup fs p of
        None \<Rightarrow> Inl (''Error: ENOENT: no such file or directory, open '' @ p)
      | Some Dir \<Rightarrow> Inl ''Error: EISDIR: illegal operation on a directory, read''
      | Some (File bytes readable) \<Rightarrow>
          if readable then Inr bytes
          else Inl (''Error: EACCES: permission denied, open '' @ p))"

section \<open>FileStore (storage/fileStore.ts)\<close>

record StoredFileResult =
  path :: string
  bytes :: nat

text \<open>The date \<open>saveDated\<close> reads: \<open>getFullYear()\<close>, \<open>getMonth()\<close> (0 to 11), \<open>getDate()\<close>.\<close>

record date =
  getFullYear :: nat
  getMonth :: nat
  getDate :: nat

definition ensureDir :: "filesystem \<Rightarrow> string \<Rightarrow> string + filesystem" where
  "ensureDir fs p = (if \<not> existsSync fs p then mkdirSync fs p else Inr fs)"

text \<open>\<open>finalFileName.replace(/\.md$/i, '')\<close>.\<close>

definition strip_md :: "string \<Rightarrow> string" where
  "strip_md name =
     (if 3 \<le> length name \<and> toLowerCase (drop (length name - 3) name) = ''.md''
      then take (length name - 3) name else name)"

text \<open>The candidate the loop tries for the counter \<open>i\<close>.\<close>

definition suffixed :: "string \<Rightarrow> string \<Rightarrow> nat \<Rightarrow> string" where
  "suffixed targetDir stem i = path_join [targetDir, stem @ ''-'' @ String_of_nat i @ ''.md'']"

text \<open>
  The loop \<open>while (existsSync(candidate)) { candidate = join(targetDir, stem-i.md); i++ }\<close>.
\<close>

function probe :: "filesystem \<Rightarrow> string \<Rightarrow> string \<Rightarrow> string \<Rightarrow> nat \<Rightarrow> string" where
  "probe fs targetDir stem candidate i =
     (if existsSync fs candidate then probe fs targetDir stem (suffixed targetDir stem i) (i + 1)
      else candidate)"
  by pat_completeness auto

text \<open>
  \<open>saveDated\<close>. \<open>targetDir_of\<close> and \<open>finalFileName_of\<close> are the values of its constants
  \<open>targetDir\<close> and \<open>finalFileName\<close>.
\<close>

definition targetDir_of :: "string \<Rightarrow> date \<Rightarrow> string" where
  "targetDir_of baseDir now =
     (let year = String_of_nat (getFullYear now);
          month = padStart2 (String_of_nat (getMonth now + 1));
          day = padStart2 (String_of_nat (getDate now))
      in path_join [baseDir, year, month, day])"

definition finalFileName_of :: "string \<Rightarrow> string" where
  "finalFileName_of basenameHint =
     (let rawName = basename (if basenameHint \<noteq> [] then basenameHint else ''note.md'')
      in if endsWith rawName ''.md'' then rawName else rawName @ ''.md'')"

definition saveDated ::
  "filesystem \<Rightarrow> string \<Rightarrow> string \<Rightarrow> string \<Rightarrow> date \<Rightarrow> string + (StoredFileResult \<times> filesystem)" where
  "saveDated fs baseDir basenameHint content now =
     (let finalFileName = finalFileName_of basenameHint;
          targetDir = targetDir_of baseDir now
      in case ensureDir fs targetDir of
           Inl e \<Rightarrow> Inl e
         | Inr fs1 \<Rightarrow>
             let candidate0 = path_join [targetDir, finalFileName];
                 candidate =
                   (if existsSync fs1 candidate0
                    then probe fs1 targetDir (strip_md finalFileName) candidate0 1
                    else candidate0)
             in case writeFileSync fs1 candidate content of
                  Inl e \<Rightarrow> Inl e
                | Inr fs2 \<Rightarrow> Inr (\<lparr>path = candidate, bytes = length content\<rparr>, fs2))"

text \<open>
  \<open>(size / 1024 / 1024).toFixed(2)\<close>: the division by a power of two is exact, and
  \<open>toFixed\<close> rounds the exact value to the nearest hundredth, the larger one on a tie.
\<close>

definition megabytes_toFixed2 :: "nat \<Rightarrow> string" where
  "megabytes_toFixed2 sz =
     (let n = (200 * sz + 2 ^ 20) div 2 ^ 21
      in String_of_nat (n div 100) @ ''.'' @ padStart2 (String_of_nat (n mod 100)))"

definition too_large_text :: "nat \<Rightarrow> string" where
  "too_large_text sz =
     ''[File too large: '' @ megabytes_toFixed2 sz @ ''MB. Contents not loaded.]''"

definition error_reading_text :: "string \<Rightarrow> string" where
  "error_reading_text e = ''[Error reading file: '' @ e @ '']''"

text \<open>The object \<open>readLimited\<close> returns; a property it leaves out is \<open>None\<close>.\<close>

record FileInfo =
  file_exists :: bool
  file_size :: "nat option"
  file_contents :: "string option"

definition readLimited :: "filesystem \<Rightarrow> string \<Rightarrow> nat \<Rightarrow> FileInfo" where
  "readLimited fs p limitBytes =
     (if \<not> existsSync fs p
      then \<lparr>file_exists = False, file_size = None, file_contents = None\<rparr>
      else
        case stat_size fs p of
          Inl e \<Rightarrow> \<lparr>file_exists = False, file_size = None,
                     file_contents = Some (error_reading_text e)\<rparr>
        | Inr sz \<Rightarrow>
            if limitBytes < sz
            then \<lparr>file_exists = True, file_size = Some sz,
                  file_contents = Some (too_large_text sz)\<rparr>
            else
              (case readFileSync fs p of
                 Inl e \<Rightarrow> \<lparr>file_exists = False, file_size = None,
                            file_contents = Some (error_reading_text e)\<rparr>
               | Inr contents \<Rightarrow> \<lparr>file_exists = True, file_size = Some sz,
                                   file_contents = Some contents\<rparr>))"

text \<open>The default of \<open>limitBytes\<close>.\<close>

definition default_limitBytes :: nat where
  "default_limitBytes = 1024 * 1024"

section \<open>SearchService (search/searchService.ts)\<close>

text \<open>
  \<open>sanitize\<close>: every double quote is doubled, every bracket of \<open>(){}[]\<close> becomes a space,
  every run of white space becomes one space, and the ends are trimmed.
\<close>

function replace_runs :: "(char \<Rightarrow> bool) \<Rightarrow> char \<Rightarrow> string \<Rightarrow> string" where
  "replace_runs P r [] = []"
| "replace_runs P r (c # cs) =
     (if P c then r # replace_runs P r (dropWhile P cs) else c # replace_runs P r cs)"
  by pat_completeness auto
termination
  by (relation "measure (\<lambda>(P, r, s). length s)") (auto simp: length_dropWhile_le less_Suc_eq_le)

definition sanitize :: "string \<Rightarrow> string" where
  "sanitize query =
     trim (replace_runs isSpace CHR '' ''
       (map (\<lambda>c. if c \<in> set ''(){}[]'' then CHR '' '' else c)
         (concat (map (\<lambda>c. if c = CHR 0x22 then [c, c] else [c]) query))))"

text \<open>
  The FTS5 engine is a parameter of the search: given the documents of the index, the two
  column weights and the MATCH expression, it either rejects the expression or returns
  the rowid of every matching document with its \<open>bm25\<close> score. Scores are real numbers;
  the rounding of floating-point arithmetic is not modelled.
\<close>

type_synonym fts_engine =
  "fts_doc list \<Rightarrow> real \<Rightarrow> real \<Rightarrow> string \<Rightarrow> sql_error + (nat \<times> real) list"

text \<open>A row of the CTE \<open>ranked\<close> and a row of the whole query.\<close>

record ranked_row = memory_row +
  bm25_score :: real
  matched_keywords :: nat

record SearchRow = ranked_row +
  final_score :: real

text \<open>
  \<open>kwExpr\<close>: \<open>COUNT(DISTINCT k.keyword)\<close> over the keywords of the memory that are among
  the bound (lower-cased) boost keywords, or the constant 0 without boost keywords.
\<close>

definition kwExpr :: "database \<Rightarrow> string list \<Rightarrow> nat \<Rightarrow> nat" where
  "kwExpr db boost mid =
     (if boost \<noteq> []
      then length (remdups (filter (\<lambda>k. k \<in> set (map toLowerCase boost)) (keywords_of db mid)))
      else 0)"

text \<open>
  The rows of \<open>memories_fts JOIN memories m ON m.id = memories_fts.rowid WHERE memories_fts
  MATCH ?\<close> with the columns the CTE selects, and the CTE itself:
  \<open>ORDER BY bm25_score LIMIT ?\<close>. Rows of equal score stay in the order of the join.
\<close>

definition matches :: "database \<Rightarrow> string list \<Rightarrow> (nat \<times> real) list \<Rightarrow> ranked_row list" where
  "matches db boost hits =
     concat (map (\<lambda>(rid, score).
       map (\<lambda>m. \<lparr>row_id = row_id m, file_path = file_path m, summary = summary m,
                  created_at = created_at m, bm25_score = score,
                  matched_keywords = kwExpr db boost (row_id m)\<rparr>)
         (filter (\<lambda>m. row_id m = rid) (memories db))) hits)"

definition ranked :: "database \<Rightarrow> string list \<Rightarrow> nat \<Rightarrow> (nat \<times> real) list \<Rightarrow> ranked_row list" where
  "ranked db boost limit2 hits = take limit2 (sort_key bm25_score (matches db boost hits))"

definition with_final_score :: "real \<Rightarrow> ranked_row \<Rightarrow> SearchRow" where
  "with_final_score lam r =
     \<lparr>row_id = row_id r, file_path = file_path r, summary = summary r,
      created_at = created_at r, bm25_score = bm25_score r,
      matched_keywords = matched_keywords r,
      final_score = bm25_score r - lam * real (matched_keywords r)\<rparr>"

definition search_run ::
  "fts_engine \<Rightarrow> database \<Rightarrow> string \<Rightarrow> string list \<Rightarrow> nat \<Rightarrow> real \<Rightarrow> real \<Rightarrow> real
     \<Rightarrow> sql_error + SearchRow list" where
  "search_run engine db query boost limit summaryWeight keywordWeight lam =
     (let sanitized = sanitize query
      in case engine (memories_fts db) summaryWeight keywordWeight sanitized of
           Inl e \<Rightarrow> Inl e
         | Inr hits \<Rightarrow>
             Inr (sort_key final_score
                    (map (with_final_score lam) (ranked db boost (limit * 2) hits))))"

section \<open>The server's tool handlers (index.ts)\<close>

text \<open>
  What a handler can throw: an \<open>McpError\<close> with its code and message, a \<open>ZodError\<close> of
  the argument schema, a \<open>SqliteError\<close> of the store, a JavaScript \<open>TypeError\<close>.
\<close>

datatype ErrorCode = InvalidRequest | InternalError | MethodNotFound

datatype exn =
    McpError ErrorCode string
  | ZodError string
  | SqliteError sql_error
  | TypeError string

definition sql_error_text :: "sql_error \<Rightarrow> string" where
  "sql_error_text e =
     (case e of
        UniqueConstraintFailed cols \<Rightarrow> ''SqliteError: UNIQUE constraint failed: '' @ cols
      | ForeignKeyConstraintFailed \<Rightarrow> ''SqliteError: FOREIGN KEY constraint failed''
      | FtsSyntaxError msg \<Rightarrow> ''SqliteError: '' @ msg)"

text \<open>
  The server: its database connection, the file system its \<open>FileStore\<close> works on, and
  the content root \<open>baseContentDir\<close>.
\<close>

record server =
  the_db :: database
  the_fs :: filesystem
  baseContentDir :: string

text \<open>
  The keyword normalization of \<open>insertMemory\<close> and \<open>updateMemory\<close>:
  \<open>[...new Set(keywords.map(k => k.trim().toLowerCase()).filter(Boolean))].slice(0, 10)\<close>.
\<close>

definition normalize_keywords :: "string list \<Rightarrow> string list" where
  "normalize_keywords ks =
     take 10 (new_Set (filter (\<lambda>k. k \<noteq> []) (map (\<lambda>k. toLowerCase (trim k)) ks)))"

text \<open>\<open>s.split(/\s+/)\<close>: the pieces between the runs of white space.\<close>

function split_ws_from :: "string \<Rightarrow> string \<Rightarrow> string list" where
  "split_ws_from acc [] = [acc]"
| "split_ws_from acc (c # cs) =
     (if isSpace c then acc # split_ws_from [] (dropWhile isSpace cs)
      else split_ws_from (acc @ [c]) cs)"
  by pat_completeness auto
termination
  by (relation "measure (\<lambda>(acc, s). length s)") (auto simp: length_dropWhile_le less_Suc_eq_le)

definition is_slug_char :: "char \<Rightarrow> bool" where
  "is_slug_char c \<longleftrightarrow> c \<in> set ''abcdefghijklmnopqrstuvwxyz0123456789-''"

text \<open>
  The slug of a summary: its first eight words in lower case joined by dashes (or
  \<open>memory\<close>), every run of other characters replaced by a dash, runs of dashes
  collapsed, one dash removed at either end, cut to fifty characters.
\<close>

definition slug_of :: "string \<Rightarrow> string" where
  "slug_of summ =
     (let words = join ''-'' (take 8 (split_ws_from [] (toLowerCase summ)));
          s0 = (if words \<noteq> [] then words else ''memory'');
          s1 = replace_runs (\<lambda>c. \<not> is_slug_char c) CHR ''-'' s0;
          s2 = replace_runs (\<lambda>c. c = CHR ''-'') CHR ''-'' s1;
          s3 = (if s2 \<noteq> [] \<and> hd s2 = CHR ''-'' then tl s2 else s2);
          s4 = (if s3 \<noteq> [] \<and> last s3 = CHR ''-'' then butlast s3 else s3)
      in take 50 s4)"

text \<open>\<open>InsertMemorySchema.parse\<close>; keywords left out default to the empty list.\<close>

definition InsertMemorySchema_parse ::
  "string \<Rightarrow> string \<Rightarrow> string list option \<Rightarrow> exn + (string \<times> string \<times> string list)" where
  "InsertMemorySchema_parse content summ kws_opt =
     (let ks = (case kws_opt of None \<Rightarrow> [] | Some k \<Rightarrow> k)
      in if 1 \<le> length content \<and> 1 \<le> length summ \<and> length summ \<le> 1000 \<and> length ks \<le> 10
         then Inr (content, summ, ks)
         else Inl (ZodError ''invalid insert_memory arguments''))"

text \<open>
  \<open>insertMemory\<close>. The file is written first; when the store then refuses the row the
  file stays, so the handler returns the server it leaves behind next to its outcome.
\<close>

record InsertResult =
  inserted_id :: nat
  inserted_file_path :: string

definition insertMemory ::
  "server \<Rightarrow> date \<Rightarrow> nat \<Rightarrow> string \<Rightarrow> string \<Rightarrow> string list option
     \<Rightarrow> (exn + InsertResult) \<times> server" where
  "insertMemory srv today now content summ kws_opt =
     (case InsertMemorySchema_parse content summ kws_opt of
        Inl e \<Rightarrow> (Inl e, srv)
      | Inr (content, summ, ks) \<Rightarrow>
          let normalized = normalize_keywords ks;
              slug = slug_of summ
          in case saveDated (the_fs srv) (baseContentDir srv) (slug @ ''.md'') content today of
               Inl e \<Rightarrow> (Inl (McpError InternalError (''Failed to insert memory: '' @ e)), srv)
             | Inr (stored, fs') \<Rightarrow>
                 (case repo_insert (path stored) summ normalized now (the_db srv) of
                    Inl e \<Rightarrow>
                      (Inl (McpError InternalError
                              (''Failed to insert memory: '' @ sql_error_text e)),
                       srv\<lparr>the_fs := fs'\<rparr>)
                  | Inr (i, db') \<Rightarrow>
                      (Inr \<lparr>inserted_id = i, inserted_file_path = path stored\<rparr>,
                       srv\<lparr>the_fs := fs', the_db := db'\<rparr>)))"

text \<open>
  \<open>UpdateMemorySchema.parse\<close>: a positive id, and at least one of content, summary and
  keywords given (an empty keyword list counts as given).
\<close>

definition UpdateMemorySchema_valid ::
  "nat \<Rightarrow> string option \<Rightarrow> string option \<Rightarrow> string list option \<Rightarrow> bool" where
  "UpdateMemorySchema_valid mid content_opt summ_opt kws_opt \<longleftrightarrow>
     0 < mid \<and>
     (case content_opt of None \<Rightarrow> True | Some c \<Rightarrow> 1 \<le> length c) \<and>
     (case summ_opt of None \<Rightarrow> True | Some s \<Rightarrow> 1 \<le> length s \<and> length s \<le> 1000) \<and>
     (case kws_opt of None \<Rightarrow> True | Some ks \<Rightarrow> length ks \<le> 10) \<and>
     (content_opt \<noteq> None \<or> summ_opt \<noteq> None \<or> kws_opt \<noteq> None)"

definition not_found_text :: "nat \<Rightarrow> string" where
  "not_found_text mid = ''Memory with ID '' @ String_of_nat mid @ '' not found''"

definition updateMemory ::
  "server \<Rightarrow> nat \<Rightarrow> nat \<Rightarrow> string option \<Rightarrow> string option \<Rightarrow> string list option
     \<Rightarrow> (exn + InsertResult) \<times> server" where
  "updateMemory srv now mid content_opt summ_opt kws_opt =
     (if \<not> UpdateMemorySchema_valid mid content_opt summ_opt kws_opt
      then (Inl (ZodError ''invalid update_memory arguments''), srv)
      else
        case repo_get mid (the_db srv) of
          None \<Rightarrow> (Inl (McpError InvalidRequest (not_found_text mid)), srv)
        | Some existing \<Rightarrow>
            (case (case content_opt of
                     None \<Rightarrow> Inr (the_fs srv)
                   | Some content \<Rightarrow>
                       if content \<noteq> []
                       then writeFileSync (the_fs srv) (file_path existing) content
                       else Inr (the_fs srv)) of
               Inl e \<Rightarrow> (Inl (McpError InternalError (''Failed to write file: '' @ e)), srv)
             | Inr fs' \<Rightarrow>
                 let normalized = (case kws_opt of
                                     None \<Rightarrow> None
                                   | Some ks \<Rightarrow> Some (normalize_keywords ks))
                 in case repo_update mid summ_opt normalized now (the_db srv) of
                      Inl e \<Rightarrow> (Inl (SqliteError e), srv\<lparr>the_fs := fs'\<rparr>)
                    | Inr (ok, db') \<Rightarrow>
                        if \<not> ok
                        then (Inl (McpError InternalError ''Update failed''),
                              srv\<lparr>the_fs := fs', the_db := db'\<rparr>)
                        else
                          (case repo_get mid db' of
                             None \<Rightarrow> (Inl (TypeError ''Cannot read properties of undefined''),
                                       srv\<lparr>the_fs := fs', the_db := db'\<rparr>)
                           | Some updated \<Rightarrow>
                               (Inr \<lparr>inserted_id = mid, inserted_file_path = file_path updated\<rparr>,
                                srv\<lparr>the_fs := fs', the_db := db'\<rparr>))))"

text \<open>\<open>searchMemories\<close>: the first \<open>limit\<close> rows of the search, each with its content.\<close>

record SearchResult =
  result_file_path :: string
  result_file_contents :: "string option"
  result_summary :: string

definition SearchMemoriesSchema_valid :: "string \<Rightarrow> string list \<Rightarrow> nat \<Rightarrow> real \<Rightarrow> real \<Rightarrow> real \<Rightarrow> bool" where
  "SearchMemoriesSchema_valid query boost limit summaryWeight keywordWeight lam \<longleftrightarrow>
     1 \<le> length query \<and> length boost \<le> 10 \<and> 0 < limit \<and> limit \<le> 100 \<and>
     0 < summaryWeight \<and> 0 < keywordWeight \<and> 0 \<le> lam"

definition searchMemories ::
  "fts_engine \<Rightarrow> server \<Rightarrow> string \<Rightarrow> string list \<Rightarrow> nat \<Rightarrow> real \<Rightarrow> real \<Rightarrow> real
     \<Rightarrow> exn + (SearchResult list \<times> nat)" where
  "searchMemories engine srv query boost limit summaryWeight keywordWeight lam =
     (if \<not> SearchMemoriesSchema_valid query boost limit summaryWeight keywordWeight lam
      then Inl (ZodError ''invalid search_memories arguments'')
      else
        case search_run engine (the_db srv) query boost limit summaryWeight keywordWeight lam of
          Inl e \<Rightarrow> Inl (SqliteError e)
        | Inr results \<Rightarrow>
            Inr (map (\<lambda>r. \<lparr>result_file_path = file_path r,
                            result_file_contents =
                              file_contents (readLimited (the_fs srv) (file_path r) default_limitBytes),
                            result_summary = summary r\<rparr>)
                   (take limit results),
                 length results))"

text \<open>\<open>getMemory\<close>.\<close>

record GetResult =
  got_id :: nat
  got_file_path :: string
  got_file_contents :: "string option"
  got_summary :: string

definition getMemory :: "server \<Rightarrow> nat \<Rightarrow> exn + GetResult" where
  "getMemory srv mid =
     (if \<not> 0 < mid then Inl (ZodError ''invalid get_memory arguments'')
      else
        case repo_get mid (the_db srv) of
          None \<Rightarrow> Inl (McpError InvalidRequest (not_found_text mid))
        | Some memory \<Rightarrow>
            Inr \<lparr>got_id = row_id memory, got_file_path = file_path memory,
                 got_file_contents =
                   file_contents (readLimited (the_fs srv) (file_path memory) default_limitBytes),
                 got_summary = summary memory\<rparr>)"


text \<open>
  \<open>listMemories\<close>. The handler maps every row \<open>m\<close> of \<open>repo.list\<close> through
  \<open>m.keywords ? m.keywords.split(', ') : []\<close>. The values this expression meets are
  JavaScript values: \<open>truthy\<close> is the test of the conditional, \<open>call_split\<close> the method
  call, which only a string answers.
\<close>

datatype js_value = JsUndefined | JsNull | JsString string | JsArray "string list"

definition truthy :: "js_value \<Rightarrow> bool" where
  "truthy v = (case v of JsString s \<Rightarrow> s \<noteq> [] | JsArray _ \<Rightarrow> True | _ \<Rightarrow> False)"

definition call_split :: "js_value \<Rightarrow> string \<Rightarrow> exn + string list" where
  "call_split v separator =
     (case v of
        JsString s \<Rightarrow> Inr (split separator s)
      | JsArray _ \<Rightarrow> Inl (TypeError ''m.keywords.split is not a function'')
      | _ \<Rightarrow> Inl (TypeError ''Cannot read properties of undefined (reading split)''))"

record ListedMemory = memory_view +
  listed_keywords :: "string list"

record Pagination =
  total :: nat
  page_limit :: nat
  page_offset :: nat
  has_more :: bool

definition list_one :: "memory_view \<Rightarrow> exn + ListedMemory" where
  "list_one m =
     (let v = JsArray (keywords_prop m)
      in case (if truthy v then call_split v '', '' else Inr []) of
           Inl e \<Rightarrow> Inl e
         | Inr ks \<Rightarrow>
             Inr \<lparr>row_id = row_id m, file_path = file_path m, summary = summary m,
                  created_at = created_at m, kws = kws m, keywords_prop = keywords_prop m,
                  listed_keywords = ks\<rparr>)"

fun list_each :: "memory_view list \<Rightarrow> exn + ListedMemory list" where
  "list_each [] = Inr []"
| "list_each (m # ms) =
     (case list_one m of
        Inl e \<Rightarrow> Inl e
      | Inr x \<Rightarrow> (case list_each ms of Inl e \<Rightarrow> Inl e | Inr xs \<Rightarrow> Inr (x # xs)))"

definition listMemories :: "server \<Rightarrow> nat \<Rightarrow> nat \<Rightarrow> exn + (ListedMemory list \<times> Pagination)" where
  "listMemories srv limit offset =
     (if \<not> (0 < limit \<and> limit \<le> 100) then Inl (ZodError ''invalid list_memories arguments'')
      else
        let page = repo_list limit offset (the_db srv);
            n = repo_count (the_db srv)
        in case list_each page of
             Inl e \<Rightarrow> Inl e
           | Inr listed \<Rightarrow>
               Inr (listed,
                    \<lparr>total = n, page_limit = limit, page_offset = offset,
                     has_more = (offset + limit < n)\<rparr>))"

text \<open>\<open>optimizeIndex\<close>.\<close>

definition optimizeIndex :: "server \<Rightarrow> exn + string" where
  "optimizeIndex srv = Inr ''FTS5 index optimized successfully''"

text \<open>
  \<open>readFile\<close>: the read is refused unless the resolved target, in lower case, starts with
  the resolved content root and a separator, in lower case.
\<close>

record ReadFileResult =
  read_file_path :: string
  read_file_contents :: "string option"
  read_file_exists :: bool

definition readFile :: "server \<Rightarrow> string \<Rightarrow> exn + ReadFileResult" where
  "readFile srv filePath =
     (let resolvedBase = path_resolve (cwd (the_fs srv)) (baseContentDir srv) @ sep;
          resolvedTarget = path_resolve (cwd (the_fs srv)) filePath;
          isWithinBase = startsWith (toLowerCase resolvedTarget) (toLowerCase resolvedBase)
      in if \<not> isWithinBase
         then Inl (McpError InvalidRequest ''File path outside content directory'')
         else
           let fileInfo = readLimited (the_fs srv) resolvedTarget default_limitBytes
           in Inr \<lparr>read_file_path = filePath, read_file_contents = file_contents fileInfo,
                   read_file_exists = file_exists fileInfo\<rparr>)"
section \<open>What the claims speak of\<close>

text \<open>The ids of the live memories, and the index documents of one id.\<close>

definition ids :: "database \<Rightarrow> nat set" where
  "ids db = set (map row_id (memories db))"



text \<open>
  The databases the repository can produce: the new database, and every database that a
  committed \<open>insert\<close>, \<open>update\<close> or \<open>delete\<close> makes of one of them. A call that throws
  rolls its transaction back and commits nothing.
\<close>

inductive reachable :: "database \<Rightarrow> bool" where
  opened: "reachable (initializeSchema openDatabase)"
| inserted: "reachable db \<Longrightarrow> repo_insert fp s ks now db = Inr (i, db') \<Longrightarrow> reachable db'"
| updated: "reachable db \<Longrightarrow> repo_update mid s_opt ks_opt now db = Inr (ok, db') \<Longrightarrow> reachable db'"
| deleted: "reachable db \<Longrightarrow> repo_delete mid db = (ok, db') \<Longrightarrow> reachable db'"




text \<open>
  Two notions about paths for the termination of the collision loop: a segment that
  normalization keeps as it is, and a path whose last segment is a given text.
\<close>

definition normal_seg :: "string \<Rightarrow> bool" where
  "normal_seg t \<longleftrightarrow> t \<noteq> [] \<and> t \<noteq> ''.'' \<and> t \<noteq> ''..'' \<and> CHR ''/'' \<notin> set t"

definition ends_seg :: "string \<Rightarrow> string \<Rightarrow> bool" where
  "ends_seg t p \<longleftrightarrow> (\<exists>u. p = u @ t \<and> (u = [] \<or> last u = CHR ''/''))"

section \<open>Example states\<close>

text \<open>
  An empty file system with the working directory \<open>/home/u\<close>, the fifth of January 2024,
  and the file system after \<open>saveDated\<close> has stored \<open>note.md\<close> on that day.
\<close>

definition fs0 :: filesystem where
  "fs0 = \<lparr>cwd = ''/home/u'', dir_size = 4096, nodes = []\<rparr>"

definition day1 :: date where
  "day1 = \<lparr>getFullYear = 2024, getMonth = 0, getDate = 5\<rparr>"


text \<open>
  The store after one \<open>insert_memory\<close> with the summary \<open>first note\<close> and the keywords
  \<open>foo\<close> and \<open>bar\<close> at the clock reading 100; that store after an update of the keywords
  alone, and after an update of the summary alone, both at the clock reading 200.
\<close>

definition example_db :: database where
  "example_db =
     \<lparr>memories =
        [\<lparr>row_id = 1, file_path = ''data/2024/01/05/first-note.md'',
          summary = ''first note'', created_at = 100\<rparr>],
      keywords_table = [(1, ''foo''), (1, ''bar'')],
      memories_fts =
        [\<lparr>rowid = 1, doc_summary = Some ''first note'', doc_keywords = ''foo bar''\<rparr>],
      sqlite_sequence = 1, foreign_keys = True\<rparr>"

definition example_db_rekeyed :: database where
  "example_db_rekeyed =
     \<lparr>memories =
        [\<lparr>row_id = 1, file_path = ''data/2024/01/05/first-note.md'',
          summary = ''first note'', created_at = 100\<rparr>],
      keywords_table = [(1, ''x'')],
      memories_fts =
        [\<lparr>rowid = 1, doc_summary = Some ''first note'', doc_keywords = ''x''\<rparr>],
      sqlite_sequence = 1, foreign_keys = True\<rparr>"

definition example_db_resummarized :: database where
  "example_db_resummarized =
     \<lparr>memories =
        [\<lparr>row_id = 1, file_path = ''data/2024/01/05/first-note.md'',
          summary = ''second'', created_at = 200\<rparr>],
      keywords_table = [(1, ''foo''), (1, ''bar'')],
      memories_fts =
        [\<lparr>rowid = 1, doc_summary = Some ''second'', doc_keywords = ''foo bar''\<rparr>],
      sqlite_sequence = 1, foreign_keys = True\<rparr>"

definition example_fs :: filesystem where
  "example_fs =
     \<lparr>cwd = ''/home/u'', dir_size = 4096,
      nodes =
        [(''/home/u/data/2024/01/05/first-note.md'', File ''hello world'' True),
         (''/home/u/data/2024/01/05'', Dir), (''/home/u/data/2024/01'', Dir),
         (''/home/u/data/2024'', Dir), (''/home/u/data'', Dir), (''/home/u'', Dir),
         (''/home'', Dir)]\<rparr>"

definition empty_srv :: server where
  "empty_srv =
     \<lparr>the_db = initializeSchema openDatabase, the_fs = fs0, baseContentDir = ''./data''\<rparr>"

definition example_srv :: server where
  "example_srv = \<lparr>the_db = example_db, the_fs = example_fs, baseContentDir = ''./data''\<rparr>"


text \<open>Three memories, created at the clock readings 100, 200 and 300.\<close>

definition three_db :: database where
  "three_db =
     \<lparr>memories =
        [\<lparr>row_id = 1, file_path = ''data/2024/01/05/a.md'', summary = ''notes a'',
          created_at = 100\<rparr>,
         \<lparr>row_id = 2, file_path = ''data/2024/01/05/b.md'', summary = ''notes b'',
          created_at = 200\<rparr>,
         \<lparr>row_id = 3, file_path = ''data/2024/01/05/c.md'', summary = ''notes c'',
          created_at = 300\<rparr>],
      keywords_table = [(1, ''bar''), (2, ''foo''), (2, ''bar''), (3, ''foo'')],
      memories_fts =
        [\<lparr>rowid = 1, doc_summary = Some ''notes a'', doc_keywords = ''bar''\<rparr>,
         \<lparr>rowid = 2, doc_summary = Some ''notes b'', doc_keywords = ''foo bar''\<rparr>,
         \<lparr>rowid = 3, doc_summary = Some ''notes c'', doc_keywords = ''foo''\<rparr>],
      sqlite_sequence = 3, foreign_keys = True\<rparr>"

definition three_srv :: server where
  "three_srv = \<lparr>the_db = three_db, the_fs = fs0, baseContentDir = ''./data''\<rparr>"

text \<open>
  An engine that finds all three memories for the query \<open>notes\<close>, two of them with the
  same score.
\<close>

definition example_engine :: fts_engine where
  "example_engine docs summaryWeight keywordWeight q =
     (if q = ''notes'' then Inr [(3, - 1 / 2), (1, - 3 / 2), (2, - 3 / 2)] else Inr [])"

text \<open>A server whose content root is \<open>/srv/data\<close>, next to a directory \<open>/srv/DATA\<close>.\<close>

definition leak_srv :: server where
  "leak_srv =
     \<lparr>the_db = initializeSchema openDatabase,
      the_fs =
        \<lparr>cwd = ''/srv'', dir_size = 40,
         nodes =
           [(''/srv/DATA/secret.md'', File ''top secret'' True), (''/srv/DATA'', Dir),
            (''/srv/data'', Dir)]\<rparr>,
      baseContentDir = ''/srv/data''\<rparr>"

text \<open>The server after inserting one memory whose only keyword is \<open>a, b\<close>.\<close>

definition comma_db :: database where
  "comma_db =
     \<lparr>memories =
        [\<lparr>row_id = 1, file_path = ''data/2024/01/05/first-note.md'',
          summary = ''first note'', created_at = 100\<rparr>],
      keywords_table = [(1, ''a, b'')],
      memories_fts =
        [\<lparr>rowid = 1, doc_summary = Some ''first note'', doc_keywords = ''a, b''\<rparr>],
      sqlite_sequence = 1, foreign_keys = True\<rparr>"

definition comma_srv :: server where
  "comma_srv = \<lparr>the_db = comma_db, the_fs = example_fs, baseContentDir = ''./data''\<rparr>"

section \<open>The store invariant\<close>

lemma fts_insert_simps [simp]:
  "memories (fts_insert d db) = memories db"
  "keywords_table (fts_insert d db) = keywords_table db"
  "sqlite_sequence (fts_insert d db) = sqlite_sequence db"
  "foreign_keys (fts_insert d db) = foreign_keys db"
  "memories_fts (fts_insert d db) = memories_fts db @ [d]"
  by (simp_all add: fts_insert_def)

lemma fts_delete_simps [simp]:
  "memories (fts_delete m db) = memories db"
  "keywords_table (fts_delete m db) = keywords_table db"
  "sqlite_sequence (fts_delete m db) = sqlite_sequence db"
  "foreign_keys (fts_delete m db) = foreign_keys db"
  "memories_fts (fts_delete m db) = filter (\<lambda>d. rowid d \<noteq> m) (memories_fts db)"
  by (simp_all add: fts_delete_def)

lemma keywords_of_cong: "keywords_table db' = keywords_table db \<Longrightarrow> keywords_of db' m = keywords_of db m"
  by (simp add: keywords_of_def)

lemma keyword_column_cong: "keywords_of db' m = keywords_of db m \<Longrightarrow> keyword_column db' m = keyword_column db m"
  by (simp add: keyword_column_def)

lemma select_summary_cong: "memories db' = memories db \<Longrightarrow> select_summary db' m = select_summary db m"
  by (simp add: select_summary_def)

lemma keywords_ad_frame [simp]:
  "memories (keywords_ad kw db) = memories db"
  "keywords_table (keywords_ad kw db) = keywords_table db"
  "sqlite_sequence (keywords_ad kw db) = sqlite_sequence db"
  "foreign_keys (keywords_ad kw db) = foreign_keys db"
  by (simp_all add: keywords_ad_def Let_def)

lemma keywords_ai_frame [simp]:
  "memories (keywords_ai kw db) = memories db"
  "keywords_table (keywords_ai kw db) = keywords_table db"
  "sqlite_sequence (keywords_ai kw db) = sqlite_sequence db"
  "foreign_keys (keywords_ai kw db) = foreign_keys db"
  by (simp_all add: keywords_ai_def Let_def)





lemma delete_keyword_rows_frame [simp]:
  "memories (delete_keyword_rows rows db) = memories db"
  "sqlite_sequence (delete_keyword_rows rows db) = sqlite_sequence db"
  "foreign_keys (delete_keyword_rows rows db) = foreign_keys db"
  by (induction rows arbitrary: db; simp)+

lemma delete_keyword_rows_table:
  "keywords_table (delete_keyword_rows rows db) = fold remove1 rows (keywords_table db)"
  by (induction rows arbitrary: db) simp_all

lemma fold_remove1_filter:
  "\<forall>y \<in> set ys. \<not> P y \<Longrightarrow>
   fold remove1 (filter P xs) (ys @ xs) = ys @ filter (\<lambda>x. \<not> P x) xs"
proof (induction xs arbitrary: ys)
  case Nil
  then show ?case by simp
next
  case (Cons x xs)
  show ?case
  proof (cases "P x")
    case True
    with Cons.prems have "x \<notin> set ys" by auto
    then have "remove1 x (ys @ x # xs) = ys @ xs" by (simp add: remove1_append)
    with True Cons.IH [OF Cons.prems] show ?thesis by simp
  next
    case False
    with Cons.prems have "\<forall>y \<in> set (ys @ [x]). \<not> P y" by auto
    from Cons.IH [OF this] False show ?thesis by simp
  qed
qed

lemma delete_from_keywords_table:
  "keywords_table (delete_from_keywords mid db) = filter (\<lambda>kw. fst kw \<noteq> mid) (keywords_table db)"
  using fold_remove1_filter [of "[]" "\<lambda>kw. fst kw = mid" "keywords_table db"]
  by (simp add: delete_from_keywords_def delete_keyword_rows_table)







lemma select_summary_dead:
  "mid \<notin> ids db \<Longrightarrow> select_summary db mid = None"
proof -
  assume "mid \<notin> ids db"
  then have "filter (\<lambda>r. row_id r = mid) (memories db) = []"
    by (force simp: ids_def filter_empty_conv)
  then show ?thesis by (simp add: select_summary_def)
qed



lemma insert_keywords_memories:
  "insert_keywords mid ks db = Inr db' \<Longrightarrow> memories db' = memories db"
proof (induction ks arbitrary: db)
  case Nil
  then show ?case by simp
next
  case (Cons k ks)
  then show ?case
    by (auto simp: insert_into_keywords_def split: sum.splits if_splits)
qed








lemma delete_from_keywords_frame [simp]:
  "memories (delete_from_keywords mid db) = memories db"
  "sqlite_sequence (delete_from_keywords mid db) = sqlite_sequence db"
  "foreign_keys (delete_from_keywords mid db) = foreign_keys db"
  by (simp_all add: delete_from_keywords_def)

lemma keywords_of_delete_from_keywords:
  "keywords_of (delete_from_keywords mid db) m = (if m = mid then [] else keywords_of db m)"
proof -
  have "filter (\<lambda>kw. fst kw = m) (filter (\<lambda>kw. fst kw \<noteq> mid) xs) =
        (if m = mid then [] else filter (\<lambda>kw. fst kw = m) xs)" for xs :: "(nat \<times> string) list"
    by (induction xs) auto
  then show ?thesis by (simp add: keywords_of_def delete_from_keywords_table)
qed






section \<open>Decimal numerals and path segments\<close>

lemma String_of_nat_small: "n < 10 \<Longrightarrow> String_of_nat n = [digit_char n]"
  by (subst String_of_nat.simps) simp

lemma String_of_nat_large:
  "\<not> n < 10 \<Longrightarrow> String_of_nat n = String_of_nat (n div 10) @ [digit_char (n mod 10)]"
  by (subst String_of_nat.simps) simp

lemma String_of_nat_nonempty: "String_of_nat n \<noteq> []"
  by (cases "n < 10") (simp_all add: String_of_nat_small String_of_nat_large)

lemma digit_char_inj: "a < 10 \<Longrightarrow> b < 10 \<Longrightarrow> digit_char a = digit_char b \<Longrightarrow> a = b"
proof -
  assume a: "a < 10" and b: "b < 10" and e: "digit_char a = digit_char b"
  have d: "distinct ''0123456789''" by simp
  have "length ''0123456789'' = 10" by simp
  with a b e d show "a = b"
    unfolding digit_char_def by (metis nth_eq_iff_index_eq)
qed

lemma digit_char_no_slash: "d < 10 \<Longrightarrow> digit_char d \<noteq> CHR ''/''"
proof -
  assume "d < 10"
  then have "digit_char d \<in> set ''0123456789''"
    unfolding digit_char_def by (intro nth_mem) simp
  then show ?thesis by auto
qed

lemma String_of_nat_no_slash: "CHR ''/'' \<notin> set (String_of_nat n)"
proof (induction n rule: String_of_nat.induct)
  case (1 n)
  show ?case
  proof (cases "n < 10")
    case True
    then show ?thesis
      using digit_char_no_slash [of n] by (auto simp: String_of_nat_small)
  next
    case False
    moreover have "n mod 10 < 10" by simp
    ultimately show ?thesis
      using "1" digit_char_no_slash [of "n mod 10"] by (auto simp: String_of_nat_large)
  qed
qed

lemma String_of_nat_inj: "String_of_nat m = String_of_nat n \<Longrightarrow> m = n"
proof (induction m arbitrary: n rule: String_of_nat.induct)
  case (1 m)
  show ?case
  proof (cases "m < 10")
    case m: True
    show ?thesis
    proof (cases "n < 10")
      case True
      with m "1.prems" show ?thesis
        by (simp add: String_of_nat_small digit_char_inj)
    next
      case False
      with m "1.prems" show ?thesis
        using String_of_nat_nonempty [of "n div 10"]
        by (simp add: String_of_nat_small String_of_nat_large)
    qed
  next
    case m: False
    show ?thesis
    proof (cases "n < 10")
      case True
      with m "1.prems" show ?thesis
        using String_of_nat_nonempty [of "m div 10"]
        by (simp add: String_of_nat_small String_of_nat_large)
    next
      case False
      with m "1.prems" have eq: "String_of_nat (m div 10) = String_of_nat (n div 10)"
        and dg: "digit_char (m mod 10) = digit_char (n mod 10)"
        by (simp_all add: String_of_nat_large)
      from "1.IH" [OF m eq] have "m div 10 = n div 10" .
      moreover from dg have "m mod 10 = n mod 10" by (intro digit_char_inj) simp_all
      ultimately show ?thesis by (metis div_mult_mod_eq)
    qed
  qed
qed


subsection \<open>Segments of a path\<close>

lemma split_from_slash_free:
  "CHR ''/'' \<notin> set t \<Longrightarrow> split_from ''/'' acc t = [acc @ t]"
  by (induction t arbitrary: acc) auto

lemma split_from_append_slash:
  "split_from ''/'' acc (s @ CHR ''/'' # r) = split_from ''/'' acc s @ split_from ''/'' [] r"
  by (induction s arbitrary: acc) auto

lemma segments_single: "CHR ''/'' \<notin> set t \<Longrightarrow> segments t = [t]"
  by (simp add: segments_def split_def split_from_slash_free)

lemma segments_snoc:
  "CHR ''/'' \<notin> set t \<Longrightarrow> segments (s @ CHR ''/'' # t) = segments s @ [t]"
  by (simp add: segments_def split_def split_from_append_slash split_from_slash_free)

lemma normalize_segments_snoc:
  "normal_seg t \<Longrightarrow>
   normalize_segments a st (ss @ [t]) = normalize_segments a st ss @ [t]"
  by (induction ss arbitrary: st) (auto simp: normal_seg_def split: list.splits)

lemma normalize_segments_snoc_empty:
  "normal_seg t \<Longrightarrow>
   normalize_segments a st (ss @ [t, []]) = normalize_segments a st ss @ [t]"
  by (induction ss arbitrary: st) (auto simp: normal_seg_def split: list.splits)

lemma join_snoc: "join sp (xs @ [t]) = (if xs = [] then t else join sp xs @ sp @ t)"
  by (induction sp xs rule: join.induct) auto

lemma ends_seg_segments:
  assumes "ends_seg t p" and "normal_seg t"
  shows "\<exists>pre. segments p = pre @ [t]"
proof -
  from assms(1) obtain u where p: "p = u @ t" and u: "u = [] \<or> last u = CHR ''/''"
    by (auto simp: ends_seg_def)
  from assms(2) have sf: "CHR ''/'' \<notin> set t" by (simp add: normal_seg_def)
  show ?thesis
  proof (cases "u = []")
    case True
    with p sf show ?thesis by (simp add: segments_single)
  next
    case False
    with u have "u = butlast u @ [CHR ''/'']" by (metis append_butlast_last_id)
    then have "p = butlast u @ CHR ''/'' # t" using p by (metis append.assoc append_Cons append_Nil)
    with sf show ?thesis by (metis segments_snoc)
  qed
qed

lemma ends_seg_join:
  "CHR ''/'' \<notin> set t \<Longrightarrow> ends_seg t (join ''/'' (xs @ [t]))"
  by (auto simp: join_snoc ends_seg_def)

lemma ends_seg_nonempty: "ends_seg t p \<Longrightarrow> t \<noteq> [] \<Longrightarrow> p \<noteq> []"
  by (auto simp: ends_seg_def)

lemma ends_seg_last: "ends_seg t p \<Longrightarrow> t \<noteq> [] \<Longrightarrow> last p = last t"
  by (auto simp: ends_seg_def)

lemma ends_seg_prepend: "ends_seg t p \<Longrightarrow> ends_seg t (w @ CHR ''/'' # p)"
proof -
  assume "ends_seg t p"
  then obtain u where "p = u @ t" "u = [] \<or> last u = CHR ''/''" by (auto simp: ends_seg_def)
  then have "w @ CHR ''/'' # p = (w @ CHR ''/'' # u) @ t \<and> last (w @ CHR ''/'' # u) = CHR ''/''"
    by auto
  then show ?thesis unfolding ends_seg_def by blast
qed

lemma ends_seg_normalizeString:
  assumes "ends_seg t p" and "normal_seg t"
  shows "ends_seg t (normalizeString p a)"
proof -
  from ends_seg_segments [OF assms] obtain pre where "segments p = pre @ [t]" ..
  then have "normalizeString p a = join ''/'' (normalize_segments a [] pre @ [t])"
    using assms(2) by (simp add: normalizeString_def normalize_segments_snoc)
  moreover from assms(2) have "CHR ''/'' \<notin> set t" by (simp add: normal_seg_def)
  ultimately show ?thesis by (simp add: ends_seg_join)
qed

lemma ends_seg_path_normalize:
  assumes "ends_seg t p" and "normal_seg t"
  shows "ends_seg t (path_normalize p)"
proof -
  from assms(2) have t1: "t \<noteq> []" and sf: "CHR ''/'' \<notin> set t"
    by (simp_all add: normal_seg_def)
  from t1 have "last t \<in> set t" by simp
  with sf have "last t \<noteq> CHR ''/''" by metis
  note t = t1 this
  have p: "p \<noteq> []" and l: "last p \<noteq> CHR ''/''"
    using ends_seg_nonempty [OF assms(1) t(1)] ends_seg_last [OF assms(1) t(1)] t(2) by simp_all
  let ?q = "normalizeString p (\<not> isAbsolute p)"
  have q: "ends_seg t ?q" using assms by (rule ends_seg_normalizeString)
  then have qn: "?q \<noteq> []" using t(1) by (rule ends_seg_nonempty)
  have "ends_seg t (''/'' @ ?q)" using ends_seg_prepend [OF q, of "[]"] by simp
  with q qn p l show ?thesis
    by (cases "isAbsolute p") (simp_all add: path_normalize_def Let_def)
qed

lemma ends_seg_path_resolve:
  assumes "ends_seg t p" and "normal_seg t"
  shows "ends_seg t (path_resolve wd p)"
proof -
  from assms(2) have t: "t \<noteq> []" by (simp add: normal_seg_def)
  have p: "p \<noteq> []" using ends_seg_nonempty [OF assms(1) t] .
  have key: "ends_seg t (normalizeString (z @ CHR ''/'' # []) a)" if "ends_seg t z" for z a
  proof -
    from ends_seg_segments [OF that assms(2)] obtain pre where pre: "segments z = pre @ [t]" ..
    have "segments (z @ CHR ''/'' # []) = segments z @ [[]]"
      by (rule segments_snoc) simp
    with pre have "segments (z @ CHR ''/'' # []) = pre @ [t, []]" by simp
    then have "normalizeString (z @ CHR ''/'' # []) a = join ''/'' (normalize_segments a [] pre @ [t])"
      using assms(2) by (simp add: normalizeString_def normalize_segments_snoc_empty)
    moreover from assms(2) have "CHR ''/'' \<notin> set t" by (simp add: normal_seg_def)
    ultimately show ?thesis by (simp add: ends_seg_join)
  qed
  have k1: "ends_seg t (normalizeString (p @ ''/'') a)" for a
    using key [OF assms(1)] by simp
  have k2: "ends_seg t (normalizeString (wd @ ''/'' @ p @ ''/'') a)" for a
    using key [OF ends_seg_prepend [OF assms(1), of wd]] by simp
  have n1: "normalizeString (p @ ''/'') a \<noteq> []" for a
    using k1 t by (rule ends_seg_nonempty)
  have n2: "normalizeString (wd @ ''/'' @ p @ ''/'') a \<noteq> []" for a
    using k2 t by (rule ends_seg_nonempty)
  have s1: "ends_seg t (''/'' @ normalizeString (p @ ''/'') a)" for a
    using ends_seg_prepend [OF k1, of "[]"] by simp
  have s2: "ends_seg t (''/'' @ normalizeString (wd @ ''/'' @ p @ ''/'') a)" for a
    using ends_seg_prepend [OF k2, of "[]"] by simp
  show ?thesis
    using p k1 k2 n1 n2 s1 s2 by (simp add: path_resolve_def Let_def)
qed

lemma ends_seg_path_join:
  assumes "ends_seg t n" and "normal_seg t"
  shows "ends_seg t (path_join [d, n])"
proof -
  from assms(2) have t: "t \<noteq> []" by (simp add: normal_seg_def)
  have n: "n \<noteq> []" using ends_seg_nonempty [OF assms(1) t] .
  show ?thesis
  proof (cases "d = []")
    case True
    with n show ?thesis
      using ends_seg_path_normalize [OF assms] by (simp add: path_join_def)
  next
    case False
    have "ends_seg t (d @ CHR ''/'' # n)" using assms(1) by (rule ends_seg_prepend)
    from ends_seg_path_normalize [OF this assms(2)] False n show ?thesis
      by (simp add: path_join_def)
  qed
qed

lemma ends_seg_unique:
  assumes "ends_seg t p" and "ends_seg t' p" and "CHR ''/'' \<notin> set t" and "CHR ''/'' \<notin> set t'"
  shows "t = t'"
proof -
  have ls: "rev (takeWhile (\<lambda>c. c \<noteq> CHR ''/'') (rev p)) = x"
    if "ends_seg x p" and "CHR ''/'' \<notin> set x" for x
  proof -
    from that(1) obtain u where p: "p = u @ x" and u: "u = [] \<or> last u = CHR ''/''"
      by (auto simp: ends_seg_def)
    have all: "c \<noteq> CHR ''/''" if "c \<in> set (rev x)" for c
      using that \<open>CHR ''/'' \<notin> set x\<close> by auto
    have "takeWhile (\<lambda>c. c \<noteq> CHR ''/'') (rev u) = []"
    proof (cases "rev u")
      case Nil
      then show ?thesis by simp
    next
      case (Cons a as)
      then have "u \<noteq> []" by auto
      with u have "last u = CHR ''/''" by simp
      with \<open>u \<noteq> []\<close> have "hd (rev u) = CHR ''/''" by (simp add: hd_rev)
      with Cons show ?thesis by simp
    qed
    then have "takeWhile (\<lambda>c. c \<noteq> CHR ''/'') (rev x @ rev u) = rev x"
      using takeWhile_append2 [of "rev x" "\<lambda>c. c \<noteq> CHR ''/''" "rev u"] all by simp
    with p show ?thesis by simp
  qed
  from ls [OF assms(1,3)] ls [OF assms(2,4)] show ?thesis by simp
qed

subsection \<open>The candidates of the loop are pairwise different\<close>

lemma ends_seg_name:
  "ends_seg (rev (takeWhile (\<lambda>c. c \<noteq> CHR ''/'') (rev stem)) @ rest) (stem @ rest)"
proof -
  let ?u = "rev (dropWhile (\<lambda>c. c \<noteq> CHR ''/'') (rev stem))"
  let ?v = "rev (takeWhile (\<lambda>c. c \<noteq> CHR ''/'') (rev stem))"
  have "stem = ?u @ ?v" by (metis rev_append rev_rev_ident takeWhile_dropWhile_id)
  moreover have "?u = [] \<or> last ?u = CHR ''/''"
  proof (cases "dropWhile (\<lambda>c. c \<noteq> CHR ''/'') (rev stem)")
    case Nil
    then show ?thesis by simp
  next
    case (Cons a as)
    then have "a = CHR ''/''" using hd_dropWhile [of "\<lambda>c. c \<noteq> CHR ''/''" "rev stem"] by auto
    with Cons show ?thesis by simp
  qed
  ultimately show ?thesis unfolding ends_seg_def by (metis append.assoc)
qed

lemma suffixed_inj:
  assumes "path_resolve wd (suffixed d stem i) = path_resolve wd (suffixed d stem j)"
  shows "i = j"
proof -
  let ?v = "rev (takeWhile (\<lambda>c. c \<noteq> CHR ''/'') (rev stem))"
  define t where "t k = ?v @ ''-'' @ String_of_nat k @ ''.md''" for k
  have sf: "CHR ''/'' \<notin> set (t k)" for k
  proof -
    have "CHR ''/'' \<notin> set ?v" using set_takeWhileD by fastforce
    then show ?thesis by (simp add: t_def String_of_nat_no_slash)
  qed
  have len: "5 \<le> length (t k)" for k
    using String_of_nat_nonempty [of k] by (cases "String_of_nat k") (simp_all add: t_def)
  have nm: "normal_seg (t k)" for k
    using sf [of k] len [of k] by (auto simp: normal_seg_def)
  have e: "ends_seg (t k) (path_resolve wd (suffixed d stem k))" for k
  proof -
    have "ends_seg (t k) (stem @ ''-'' @ String_of_nat k @ ''.md'')"
      unfolding t_def by (rule ends_seg_name)
    then have "ends_seg (t k) (suffixed d stem k)"
      unfolding suffixed_def using nm by (rule ends_seg_path_join)
    then show ?thesis using nm by (rule ends_seg_path_resolve)
  qed
  from e [of i] e [of j] assms have "t i = t j"
    using ends_seg_unique sf by metis
  then have "String_of_nat i = String_of_nat j" by (simp add: t_def)
  then show ?thesis by (rule String_of_nat_inj)
qed
section \<open>The file store\<close>

lemma existsSync_key:
  "existsSync fs p \<longleftrightarrow> path_resolve (cwd fs) p \<in> insert ''/'' (dom (map_of (nodes fs)))"
  by (auto simp: existsSync_def lookup_def Let_def)

lemma finite_existing_candidates:
  "finite {j. existsSync fs (suffixed d stem j)}"
proof -
  let ?K = "\<lambda>j. path_resolve (cwd fs) (suffixed d stem j)"
  have "inj ?K" by (rule injI) (rule suffixed_inj)
  moreover have "finite (insert ''/'' (dom (map_of (nodes fs))))"
    by (simp add: finite_dom_map_of)
  ultimately have "finite (?K -` insert ''/'' (dom (map_of (nodes fs))))"
    by (rule finite_vimageI [rotated])
  moreover have "{j. existsSync fs (suffixed d stem j)} = ?K -` insert ''/'' (dom (map_of (nodes fs)))"
    by (auto simp: existsSync_key)
  ultimately show ?thesis by simp
qed

termination probe
proof (relation "measure (\<lambda>(fs, d, stem, cand, i).
         if existsSync fs cand
         then Suc (card {j. i \<le> j \<and> existsSync fs (suffixed d stem j)}) else 0)")
  show "wf (measure (\<lambda>(fs, d, stem, cand, i).
         if existsSync fs cand
         then Suc (card {j. i \<le> j \<and> existsSync fs (suffixed d stem j)}) else 0))"
    by simp
next
  fix fs :: filesystem and targetDir stem candidate :: string and i :: nat
  assume "existsSync fs candidate"
  let ?A = "\<lambda>k. {j. k \<le> j \<and> existsSync fs (suffixed targetDir stem j)}"
  have fin: "finite (?A i)"
    using finite_existing_candidates [of fs targetDir stem] by (rule rev_finite_subset) auto
  have "card (?A (i + 1)) < card (?A i)" if "existsSync fs (suffixed targetDir stem i)"
  proof (rule psubset_card_mono [OF fin])
    from that have "i \<in> ?A i" by simp
    moreover have "i \<notin> ?A (i + 1)" by simp
    moreover have "?A (i + 1) \<subseteq> ?A i" by auto
    ultimately show "?A (i + 1) \<subset> ?A i" by blast
  qed
  with \<open>existsSync fs candidate\<close>
  show "((fs, targetDir, stem, suffixed targetDir stem i, i + 1),
         (fs, targetDir, stem, candidate, i)) \<in>
        measure (\<lambda>(fs, d, stem, cand, i).
          if existsSync fs cand
          then Suc (card {j. i \<le> j \<and> existsSync fs (suffixed d stem j)}) else 0)"
    by simp
qed

declare probe.simps [simp del]


subsection \<open>File system operations only add\<close>












subsection \<open>The loop finds the first free suffix\<close>


subsection \<open>Reading with a size cap\<close>







lemma readLimited_readable:
  "lookup fs p = Some (File contents True) \<Longrightarrow> length contents \<le> limitBytes \<Longrightarrow>
   readLimited fs p limitBytes =
     \<lparr>file_exists = True, file_size = Some (length contents), file_contents = Some contents\<rparr>"
  by (simp add: readLimited_def existsSync_def stat_size_def readFileSync_def)




subsection \<open>Writing under a dated, collision-free path\<close>






section \<open>Claims about the store\<close>



lemma update_memories_frame:
  "memories (update_memories s now mid db) =
     map (\<lambda>r. if row_id r = mid then r\<lparr>summary := s, created_at := now\<rparr> else r) (memories db)"
  "keywords_table (update_memories s now mid db) = keywords_table db"
  "foreign_keys (update_memories s now mid db) = foreign_keys db"
proof -
  have id: "map (\<lambda>r. if row_id r = mid then r\<lparr>summary := s, created_at := now\<rparr> else r) xs = xs"
    if "filter (\<lambda>r. row_id r = mid) xs = []" for xs :: "memory_row list"
    using that by (induction xs) (auto split: if_splits)
  show "memories (update_memories s now mid db) =
     map (\<lambda>r. if row_id r = mid then r\<lparr>summary := s, created_at := now\<rparr> else r) (memories db)"
    by (cases "filter (\<lambda>r. row_id r = mid) (memories db)")
       (simp_all add: update_memories_def id memories_au_def Let_def)
  show "keywords_table (update_memories s now mid db) = keywords_table db"
    by (simp add: update_memories_def memories_au_def Let_def split: list.splits)
  show "foreign_keys (update_memories s now mid db) = foreign_keys db"
    by (simp add: update_memories_def memories_au_def Let_def split: list.splits)
qed

lemma ids_update_memories: "ids (update_memories s now mid db) = ids db"
proof -
  have "row_id \<circ> (\<lambda>r::memory_row. if row_id r = mid then r\<lparr>summary := s, created_at := now\<rparr> else r) = row_id"
    by (auto simp: fun_eq_iff)
  then show ?thesis by (simp add: ids_def update_memories_frame)
qed











lemma repo_get_Some:
  assumes "mid \<in> ids db"
  shows "\<exists>r \<in> set (memories db). row_id r = mid \<and> repo_get mid db = Some (with_keywords db r)"
proof (cases "filter (\<lambda>r. row_id r = mid) (memories db)")
  case Nil
  with assms show ?thesis by (force simp: ids_def filter_empty_conv)
next
  case (Cons r rest)
  then have "r \<in> set (filter (\<lambda>r. row_id r = mid) (memories db))" by simp
  then have "r \<in> set (memories db)" "row_id r = mid" by simp_all
  with Cons show ?thesis by (auto simp: repo_get_def)
qed




lemma repo_update_clear:
  "\<exists>db'. repo_update mid s_opt (Some []) now db = Inr (mid \<in> ids db, db') \<and>
         keywords_of db' mid = [] \<and>
         (\<forall>m. m \<noteq> mid \<longrightarrow> keywords_of db' m = keywords_of db m) \<and>
         ids db' = ids db"
proof -
  define db1 where "db1 = (case s_opt of None \<Rightarrow> db
                           | Some s \<Rightarrow> if s \<noteq> [] then update_memories s now mid db else db)"
  have i1: "ids db1 = ids db" and k1: "keywords_table db1 = keywords_table db"
    by (auto simp: db1_def ids_update_memories update_memories_frame split: option.splits)
  have k1': "keywords_of db1 m = keywords_of db m" for m
    using k1 by (simp add: keywords_of_def)
  let ?db2 = "delete_from_keywords mid db1"
  have i2: "ids ?db2 = ids db" using i1 by (simp add: ids_def)
  have "repo_update mid s_opt (Some []) now db = Inr (mid \<in> ids db, ?db2)"
    using i2 by (simp add: repo_update_def db1_def [symmetric] Let_def ids_def)
  then show ?thesis
    using i2 by (intro exI [of _ ?db2]) (simp add: keywords_of_delete_from_keywords k1')
qed

lemma repo_update_omitted:
  "\<exists>db'. repo_update mid s_opt None now db = Inr (mid \<in> ids db, db') \<and>
         keywords_table db' = keywords_table db \<and> ids db' = ids db"
proof -
  define db1 where "db1 = (case s_opt of None \<Rightarrow> db
                           | Some s \<Rightarrow> if s \<noteq> [] then update_memories s now mid db else db)"
  have i1: "ids db1 = ids db" and k1: "keywords_table db1 = keywords_table db"
    by (auto simp: db1_def ids_update_memories update_memories_frame split: option.splits)
  have "repo_update mid s_opt None now db = Inr (mid \<in> ids db, db1)"
    using i1 by (simp add: repo_update_def db1_def [symmetric] Let_def ids_def)
  with i1 k1 show ?thesis by blast
qed

lemma normalize_keywords_Nil: "normalize_keywords [] = []"
  by (simp add: normalize_keywords_def)

text \<open>
  Claim C6. For an existing id, an update whose keyword list is the empty list leaves
  the id without any keyword row (and the keywords of every other id as they were),
  while an update that gives no keyword list leaves the whole keyword table as it was.
  This holds of \<open>MemoryRepository.update\<close> for every summary argument, and of the handler
  \<open>updateMemory\<close> (called without new content), which hands an omitted list on as omitted
  and an empty list on as empty.
\<close>

theorem update_keywords_cleared_or_kept:
  assumes "mid \<in> ids (the_db srv)" and "0 < mid"
    and "case summ_opt of None \<Rightarrow> True | Some s \<Rightarrow> 1 \<le> length s \<and> length s \<le> 1000"
  shows "(\<exists>db'. repo_update mid summ_opt (Some []) now (the_db srv) = Inr (True, db') \<and>
            keywords_of db' mid = [] \<and>
            (\<forall>m. m \<noteq> mid \<longrightarrow> keywords_of db' m = keywords_of (the_db srv) m)) \<and>
         (\<exists>db'. repo_update mid summ_opt None now (the_db srv) = Inr (True, db') \<and>
            keywords_table db' = keywords_table (the_db srv)) \<and>
         (\<exists>r srv'. updateMemory srv now mid None summ_opt (Some []) = (Inr r, srv') \<and>
            keywords_of (the_db srv') mid = [] \<and>
            (\<forall>m. m \<noteq> mid \<longrightarrow> keywords_of (the_db srv') m = keywords_of (the_db srv) m)) \<and>
         (summ_opt \<noteq> None \<longrightarrow>
            (\<exists>r srv'. updateMemory srv now mid None summ_opt None = (Inr r, srv') \<and>
               keywords_table (the_db srv') = keywords_table (the_db srv)))"
proof -
  from repo_update_clear [of mid summ_opt now "the_db srv"] assms(1)
  obtain dbc where c: "repo_update mid summ_opt (Some []) now (the_db srv) = Inr (True, dbc)"
    "keywords_of dbc mid = []"
    "\<forall>m. m \<noteq> mid \<longrightarrow> keywords_of dbc m = keywords_of (the_db srv) m"
    "ids dbc = ids (the_db srv)"
    by auto
  from repo_update_omitted [of mid summ_opt now "the_db srv"] assms(1)
  obtain dbo where o: "repo_update mid summ_opt None now (the_db srv) = Inr (True, dbo)"
    "keywords_table dbo = keywords_table (the_db srv)" "ids dbo = ids (the_db srv)"
    by auto
  from repo_get_Some [OF assms(1)] obtain e where e: "repo_get mid (the_db srv) = Some e" by blast
  from assms(1) c(4) have "mid \<in> ids dbc" by simp
  from repo_get_Some [OF this] obtain uc where uc: "repo_get mid dbc = Some uc" by blast
  from assms(1) o(3) have "mid \<in> ids dbo" by simp
  from repo_get_Some [OF this] obtain uo where uo: "repo_get mid dbo = Some uo" by blast
  have vc: "UpdateMemorySchema_valid mid None summ_opt (Some [])"
    using assms(2,3) by (simp add: UpdateMemorySchema_valid_def)
  have hc: "updateMemory srv now mid None summ_opt (Some []) =
      (Inr \<lparr>inserted_id = mid, inserted_file_path = file_path uc\<rparr>, srv\<lparr>the_fs := the_fs srv, the_db := dbc\<rparr>)"
    using vc e c(1) uc by (simp add: updateMemory_def normalize_keywords_Nil)
  have ho: "updateMemory srv now mid None summ_opt None =
      (Inr \<lparr>inserted_id = mid, inserted_file_path = file_path uo\<rparr>, srv\<lparr>the_fs := the_fs srv, the_db := dbo\<rparr>)"
    if "summ_opt \<noteq> None"
  proof -
    from that assms(2,3) have "UpdateMemorySchema_valid mid None summ_opt None"
      by (simp add: UpdateMemorySchema_valid_def)
    with e o(1) uo show ?thesis by (simp add: updateMemory_def)
  qed
  show ?thesis
  proof (intro conjI impI)
    show "\<exists>db'. repo_update mid summ_opt (Some []) now (the_db srv) = Inr (True, db') \<and>
            keywords_of db' mid = [] \<and>
            (\<forall>m. m \<noteq> mid \<longrightarrow> keywords_of db' m = keywords_of (the_db srv) m)"
      using c by blast
    show "\<exists>db'. repo_update mid summ_opt None now (the_db srv) = Inr (True, db') \<and>
            keywords_table db' = keywords_table (the_db srv)"
      using o by blast
    show "\<exists>r srv'. updateMemory srv now mid None summ_opt (Some []) = (Inr r, srv') \<and>
            keywords_of (the_db srv') mid = [] \<and>
            (\<forall>m. m \<noteq> mid \<longrightarrow> keywords_of (the_db srv') m = keywords_of (the_db srv) m)"
      using hc c(2,3) by simp
    assume "summ_opt \<noteq> None"
    from ho [OF this] o(2)
    show "\<exists>r srv'. updateMemory srv now mid None summ_opt None = (Inr r, srv') \<and>
               keywords_table (the_db srv') = keywords_table (the_db srv)"
      by simp
  qed
qed

theorem update_keywords_cleared_or_kept_witness:
  "1 \<in> ids (the_db example_srv) \<and>
   keywords_of (the_db example_srv) 1 = [''foo'', ''bar''] \<and>
   keywords_of (the_db (snd (updateMemory example_srv 200 1 None (Some ''second'') (Some [])))) 1 = [] \<and>
   keywords_table (the_db (snd (updateMemory example_srv 200 1 None (Some ''second'') None))) =
     [(1, ''foo''), (1, ''bar'')]"
proof -
  have l: "1 \<in> ids (the_db example_srv)"
    by (simp add: example_srv_def example_db_def ids_def)
  have k: "keywords_of (the_db example_srv) 1 = [''foo'', ''bar'']"
    by (simp add: example_srv_def example_db_def keywords_of_def)
  from update_keywords_cleared_or_kept [OF l, of "Some ''second''" 200]
  obtain r1 s1 r2 s2 where
    "updateMemory example_srv 200 1 None (Some ''second'') (Some []) = (Inr r1, s1)"
    "keywords_of (the_db s1) 1 = []"
    "updateMemory example_srv 200 1 None (Some ''second'') None = (Inr r2, s2)"
    "keywords_table (the_db s2) = keywords_table (the_db example_srv)"
    by auto
  with l k show ?thesis by (simp add: example_srv_def example_db_def)
qed

text \<open>
  Claim C7, as the code has it. \<open>created_at\<close> is the clock reading at creation. An update
  that gives a non-empty summary sets the summary and \<open>created_at\<close> of the row of that id
  to the new summary and the current clock reading and leaves every other row alone. An
  update that gives no summary, whatever it does to the keywords, leaves every row of
  \<open>memories\<close>, and so every \<open>created_at\<close>, as it was.
\<close>

theorem created_at_refreshed_by_summary:
  "(repo_insert fp s ks now db = Inr (i, db') \<longrightarrow>
      memories db' = memories db @ [\<lparr>row_id = i, file_path = fp, summary = s, created_at = now\<rparr>]) \<and>
   (s \<noteq> [] \<and> repo_update mid (Some s) ks_opt now db = Inr (ok, db') \<longrightarrow>
      memories db' =
        map (\<lambda>r. if row_id r = mid then r\<lparr>summary := s, created_at := now\<rparr> else r) (memories db)) \<and>
   (repo_update mid None ks_opt now db = Inr (ok, db') \<longrightarrow> memories db' = memories db)"
proof (intro conjI impI)
  assume a: "repo_insert fp s ks now db = Inr (i, db')"
  then obtain db1 where m: "insert_into_memories fp s now db = Inr (i, db1)"
    and k: "(if ks \<noteq> [] then insert_keywords i ks db1 else Inr db1) = Inr db'"
    by (auto simp: repo_insert_def split: sum.splits prod.splits)
  from k have "memories db' = memories db1"
    by (auto split: if_splits dest: insert_keywords_memories)
  moreover from m have "memories db1 = memories db @ [\<lparr>row_id = i, file_path = fp, summary = s, created_at = now\<rparr>]"
    by (auto simp: insert_into_memories_def Let_def memories_ai_def split: if_splits)
  ultimately show "memories db' = memories db @ [\<lparr>row_id = i, file_path = fp, summary = s, created_at = now\<rparr>]"
    by simp
next
  assume a: "s \<noteq> [] \<and> repo_update mid (Some s) ks_opt now db = Inr (ok, db')"
  let ?db1 = "update_memories s now mid db"
  have "memories db' = memories ?db1"
  proof (cases ks_opt)
    case None
    with a show ?thesis by (auto simp: repo_update_def Let_def)
  next
    case (Some ks)
    with a have "(if ks \<noteq> [] then insert_keywords mid ks (delete_from_keywords mid ?db1)
                  else Inr (delete_from_keywords mid ?db1)) = Inr db'"
      by (auto simp: repo_update_def Let_def split: sum.splits)
    then show ?thesis by (auto split: if_splits dest: insert_keywords_memories)
  qed
  then show "memories db' =
        map (\<lambda>r. if row_id r = mid then r\<lparr>summary := s, created_at := now\<rparr> else r) (memories db)"
    by (simp add: update_memories_frame)
next
  assume a: "repo_update mid None ks_opt now db = Inr (ok, db')"
  show "memories db' = memories db"
  proof (cases ks_opt)
    case None
    with a show ?thesis by (auto simp: repo_update_def Let_def)
  next
    case (Some ks)
    with a have "(if ks \<noteq> [] then insert_keywords mid ks (delete_from_keywords mid db)
                  else Inr (delete_from_keywords mid db)) = Inr db'"
      by (auto simp: repo_update_def Let_def split: sum.splits)
    then show ?thesis by (auto split: if_splits dest: insert_keywords_memories)
  qed
qed

theorem created_at_refreshed_by_summary_witness:
  "repo_update 1 (Some ''second'') None 200 example_db = Inr (True, example_db_resummarized) \<and>
   map created_at (memories example_db) = [100] \<and>
   map created_at (memories example_db_resummarized) = [200]"
proof -
  have eq: "repo_update 1 (Some ''second'') None 200 example_db = Inr (True, example_db_resummarized)"
    by code_simp
  from created_at_refreshed_by_summary [where s = "''second''" and mid = 1 and ks_opt = None
      and now = 200 and db = example_db and ok = True and db' = example_db_resummarized] eq
  have "memories example_db_resummarized =
      map (\<lambda>r. if row_id r = 1 then r\<lparr>summary := ''second'', created_at := 200\<rparr> else r)
        (memories example_db)"
    by simp
  then have "map created_at (memories example_db_resummarized) = [200]"
    by (simp add: example_db_def)
  with eq show ?thesis by (simp add: example_db_def)
qed

text \<open>
  Claim C7 as it is stated fails: an update at the clock reading 200 that replaces the
  keywords of the example memory and gives no summary leaves its \<open>created_at\<close> at 100.
\<close>

theorem created_at_keywords_only_counterexample:
  "repo_update 1 None (Some [''x'']) 200 example_db = Inr (True, example_db_rekeyed) \<and>
   keywords_of example_db 1 = [''foo'', ''bar''] \<and>
   keywords_of example_db_rekeyed 1 = [''x''] \<and>
   map created_at (memories example_db) = [100] \<and>
   map created_at (memories example_db_rekeyed) = [100]"
  by code_simp

section \<open>Claims about the search\<close>

lemma toLowerCase_char_idem: "toLowerCase_char (toLowerCase_char c) = toLowerCase_char c"
  by (simp add: toLowerCase_char_def)

lemma toLowerCase_idem: "toLowerCase (toLowerCase s) = toLowerCase s"
  by (simp add: toLowerCase_def toLowerCase_char_idem)

lemma kwExpr_card:
  "kwExpr db boost mid = card (toLowerCase ` set boost \<inter> set (keywords_of db mid))"
proof -
  have "length (remdups (filter (\<lambda>k. k \<in> set (map toLowerCase boost)) (keywords_of db mid))) =
        card (set (filter (\<lambda>k. k \<in> set (map toLowerCase boost)) (keywords_of db mid)))"
    by (simp add: length_remdups_card_conv)
  moreover have "set (filter (\<lambda>k. k \<in> set (map toLowerCase boost)) (keywords_of db mid)) =
        toLowerCase ` set boost \<inter> set (keywords_of db mid)"
    by auto
  ultimately show ?thesis by (simp add: kwExpr_def)
qed

lemma case_insensitive_match:
  assumes "\<forall>k \<in> set stored. toLowerCase k = k"
  shows "toLowerCase ` set boost \<inter> set stored =
         {toLowerCase b |b. b \<in> set boost \<and> (\<exists>k \<in> set stored. toLowerCase k = toLowerCase b)}"
proof (intro set_eqI iffI)
  fix x
  assume "x \<in> toLowerCase ` set boost \<inter> set stored"
  then obtain b where b: "b \<in> set boost" "x = toLowerCase b" "x \<in> set stored" by auto
  with assms have "toLowerCase x = toLowerCase b" by (simp add: toLowerCase_idem)
  with b show "x \<in> {toLowerCase b |b. b \<in> set boost \<and> (\<exists>k \<in> set stored. toLowerCase k = toLowerCase b)}"
    by blast
next
  fix x
  assume "x \<in> {toLowerCase b |b. b \<in> set boost \<and> (\<exists>k \<in> set stored. toLowerCase k = toLowerCase b)}"
  then obtain b k where b: "b \<in> set boost" "x = toLowerCase b" "k \<in> set stored" "toLowerCase k = toLowerCase b"
    by blast
  with assms have "k = x" by auto
  with b show "x \<in> toLowerCase ` set boost \<inter> set stored" by auto
qed

lemma matches_fields:
  assumes "c \<in> set (matches db boost hits)"
  shows "matched_keywords c = kwExpr db boost (row_id c)"
    and "(row_id c, bm25_score c) \<in> set hits"
    and "\<exists>m \<in> set (memories db). row_id m = row_id c \<and> file_path m = file_path c \<and>
           summary m = summary c \<and> created_at m = created_at c"
  using assms by (auto simp: matches_def)

lemma sorted_take_drop_le:
  assumes "sorted (map f xs)" and "a \<in> set (take n xs)" and "b \<in> set (drop n xs)"
  shows "f a \<le> f b"
proof -
  have "sorted (map f (take n xs) @ map f (drop n xs))"
    using assms(1) by (simp flip: map_append)
  with assms(2,3) show ?thesis by (auto simp: sorted_append)
qed


lemma ranked_facts:
  fixes db boost n hits
  defines "all \<equiv> matches db boost hits"
  defines "cands \<equiv> ranked db boost n hits"
  shows "length cands = min n (length all)"
    and "sorted (map bm25_score cands)"
    and "mset cands \<subseteq># mset all"
    and "mset all - mset cands = mset (drop n (sort_key bm25_score all))"
    and "\<forall>c \<in> set cands. \<forall>r \<in># mset all - mset cands. bm25_score c \<le> bm25_score r"
    and "set cands \<subseteq> set all"
proof -
  let ?S = "sort_key bm25_score all"
  have c: "cands = take n ?S" by (simp add: cands_def ranked_def all_def)
  have sS: "sorted (map bm25_score ?S)" by (rule sorted_sort_key)
  have split: "mset all = mset (take n ?S) + mset (drop n ?S)"
    by (metis append_take_drop_id mset_append mset_sort)
  show "length cands = min n (length all)" by (simp add: c min.commute)
  show "sorted (map bm25_score cands)"
    unfolding c using sS by (simp add: take_map [symmetric] sorted_wrt_take)
  show "mset cands \<subseteq># mset all" unfolding c split by simp
  show d: "mset all - mset cands = mset (drop n ?S)" unfolding c split by simp
  show "\<forall>c \<in> set cands. \<forall>r \<in># mset all - mset cands. bm25_score c \<le> bm25_score r"
    unfolding d unfolding c using sorted_take_drop_le [OF sS] by auto
  show "set cands \<subseteq> set all"
    unfolding c using set_take_subset [of n ?S] by auto
qed

text \<open>
  Claim C1. When the engine accepts the sanitized query, called with the summary weight
  and the keyword weight in this order, \<open>search\<close> returns rows such that: the candidates
  are the (at most) \<open>2 * limit\<close> matches of lowest \<open>bm25\<close> score, in ascending order of that
  score; every candidate's \<open>matched_keywords\<close> is the number of distinct lower-cased
  boost keywords among the memory's stored keywords (which, for stored keywords in lower
  case, is the number of boost keywords that match a stored one without regard to
  case); the rows are the candidates re-sorted in ascending order of
  \<open>final_score = bm25_score - lambda * matched_keywords\<close>; without boost keywords
  \<open>matched_keywords\<close> is 0 and \<open>final_score\<close> is the \<open>bm25\<close> score; and the handler
  \<open>searchMemories\<close> keeps the first \<open>limit\<close> rows.
\<close>

theorem search_ranking:
  assumes "engine (memories_fts db) summaryWeight keywordWeight (sanitize query) = Inr hits"
  shows "\<exists>rows.
     search_run engine db query boost limit summaryWeight keywordWeight lam = Inr rows \<and>
     (let cands = ranked db boost (2 * limit) hits; all = matches db boost hits
      in length cands = min (2 * limit) (length all) \<and>
         sorted (map bm25_score cands) \<and>
         mset cands \<subseteq># mset all \<and>
         (\<forall>c \<in> set cands. \<forall>r \<in># mset all - mset cands. bm25_score c \<le> bm25_score r) \<and>
         (\<forall>c \<in> set cands.
            (row_id c, bm25_score c) \<in> set hits \<and>
            matched_keywords c =
              card (toLowerCase ` set boost \<inter> set (keywords_of db (row_id c))) \<and>
            ((\<forall>k \<in> set (keywords_of db (row_id c)). toLowerCase k = k) \<longrightarrow>
               matched_keywords c =
                 card {toLowerCase b |b. b \<in> set boost \<and>
                         (\<exists>k \<in> set (keywords_of db (row_id c)). toLowerCase k = toLowerCase b)})) \<and>
         mset rows = mset (map (with_final_score lam) cands) \<and>
         sorted (map final_score rows) \<and>
         (\<forall>r \<in> set rows. final_score r = bm25_score r - lam * real (matched_keywords r)) \<and>
         (boost = [] \<longrightarrow> (\<forall>r \<in> set rows. matched_keywords r = 0 \<and> final_score r = bm25_score r))) \<and>
     (\<forall>srv. SearchMemoriesSchema_valid query boost limit summaryWeight keywordWeight lam \<and>
            the_db srv = db \<longrightarrow>
        (\<exists>results.
           searchMemories engine srv query boost limit summaryWeight keywordWeight lam =
             Inr (results, length rows) \<and>
           length results = min limit (length rows) \<and>
           map result_file_path results = map file_path (take limit rows) \<and>
           map result_summary results = map summary (take limit rows)))"
proof -
  define all where "all = matches db boost hits"
  define cands where "cands = ranked db boost (2 * limit) hits"
  define rows where "rows = sort_key final_score (map (with_final_score lam) cands)"
  note rf = ranked_facts [where db = db and boost = boost and n = "2 * limit" and hits = hits,
      folded all_def cands_def]
  have run: "search_run engine db query boost limit summaryWeight keywordWeight lam = Inr rows"
    using assms by (simp add: search_run_def rows_def cands_def mult.commute)
  have set_rows: "set rows = with_final_score lam ` set cands" by (simp add: rows_def)
  have cand: "\<forall>c \<in> set cands.
            (row_id c, bm25_score c) \<in> set hits \<and>
            matched_keywords c =
              card (toLowerCase ` set boost \<inter> set (keywords_of db (row_id c))) \<and>
            ((\<forall>k \<in> set (keywords_of db (row_id c)). toLowerCase k = k) \<longrightarrow>
               matched_keywords c =
                 card {toLowerCase b |b. b \<in> set boost \<and>
                         (\<exists>k \<in> set (keywords_of db (row_id c)). toLowerCase k = toLowerCase b)})"
  proof
    fix c assume "c \<in> set cands"
    with rf(6) have m: "c \<in> set (matches db boost hits)" by (auto simp: all_def)
    have mk: "matched_keywords c = card (toLowerCase ` set boost \<inter> set (keywords_of db (row_id c)))"
      using matches_fields(1) [OF m] by (simp add: kwExpr_card)
    moreover have "(row_id c, bm25_score c) \<in> set hits" using m by (rule matches_fields(2))
    moreover have "matched_keywords c =
                 card {toLowerCase b |b. b \<in> set boost \<and>
                         (\<exists>k \<in> set (keywords_of db (row_id c)). toLowerCase k = toLowerCase b)}"
      if "\<forall>k \<in> set (keywords_of db (row_id c)). toLowerCase k = k"
      using mk case_insensitive_match [OF that, of boost] by metis
    ultimately show "(row_id c, bm25_score c) \<in> set hits \<and>
            matched_keywords c =
              card (toLowerCase ` set boost \<inter> set (keywords_of db (row_id c))) \<and>
            ((\<forall>k \<in> set (keywords_of db (row_id c)). toLowerCase k = k) \<longrightarrow>
               matched_keywords c =
                 card {toLowerCase b |b. b \<in> set boost \<and>
                         (\<exists>k \<in> set (keywords_of db (row_id c)). toLowerCase k = toLowerCase b)})"
      by blast
  qed
  have perm: "mset rows = mset (map (with_final_score lam) cands)" by (simp add: rows_def)
  have srt: "sorted (map final_score rows)" unfolding rows_def by (rule sorted_sort_key)
  have fin: "\<forall>r \<in> set rows. final_score r = bm25_score r - lam * real (matched_keywords r)"
    using set_rows by (auto simp: with_final_score_def)
  have nob: "boost = [] \<longrightarrow> (\<forall>r \<in> set rows. matched_keywords r = 0 \<and> final_score r = bm25_score r)"
  proof (intro impI ballI)
    fix r assume b: "boost = []" and "r \<in> set rows"
    with set_rows obtain c where c: "c \<in> set cands" "r = with_final_score lam c" by auto
    from cand c(1) b have "matched_keywords c = 0" by simp
    with c(2) show "matched_keywords r = 0 \<and> final_score r = bm25_score r"
      by (simp add: with_final_score_def)
  qed
  have handler: "\<forall>srv. SearchMemoriesSchema_valid query boost limit summaryWeight keywordWeight lam \<and>
            the_db srv = db \<longrightarrow>
        (\<exists>results.
           searchMemories engine srv query boost limit summaryWeight keywordWeight lam =
             Inr (results, length rows) \<and>
           length results = min limit (length rows) \<and>
           map result_file_path results = map file_path (take limit rows) \<and>
           map result_summary results = map summary (take limit rows))"
    using run by (auto simp: searchMemories_def o_def min.commute)
  have body: "search_run engine db query boost limit summaryWeight keywordWeight lam = Inr rows \<and>
     (length cands = min (2 * limit) (length all) \<and>
         sorted (map bm25_score cands) \<and>
         mset cands \<subseteq># mset all \<and>
         (\<forall>c \<in> set cands. \<forall>r \<in># mset all - mset cands. bm25_score c \<le> bm25_score r) \<and>
         (\<forall>c \<in> set cands.
            (row_id c, bm25_score c) \<in> set hits \<and>
            matched_keywords c =
              card (toLowerCase ` set boost \<inter> set (keywords_of db (row_id c))) \<and>
            ((\<forall>k \<in> set (keywords_of db (row_id c)). toLowerCase k = k) \<longrightarrow>
               matched_keywords c =
                 card {toLowerCase b |b. b \<in> set boost \<and>
                         (\<exists>k \<in> set (keywords_of db (row_id c)). toLowerCase k = toLowerCase b)})) \<and>
         mset rows = mset (map (with_final_score lam) cands) \<and>
         sorted (map final_score rows) \<and>
         (\<forall>r \<in> set rows. final_score r = bm25_score r - lam * real (matched_keywords r)) \<and>
         (boost = [] \<longrightarrow> (\<forall>r \<in> set rows. matched_keywords r = 0 \<and> final_score r = bm25_score r))) \<and>
     (\<forall>srv. SearchMemoriesSchema_valid query boost limit summaryWeight keywordWeight lam \<and>
            the_db srv = db \<longrightarrow>
        (\<exists>results.
           searchMemories engine srv query boost limit summaryWeight keywordWeight lam =
             Inr (results, length rows) \<and>
           length results = min limit (length rows) \<and>
           map result_file_path results = map file_path (take limit rows) \<and>
           map result_summary results = map summary (take limit rows)))"
    using run rf(1,2,3,5) cand perm srt fin nob handler by (intro conjI)
  show ?thesis
    unfolding Let_def all_def [symmetric] cands_def [symmetric]
    using body by (rule exI [of _ rows])
qed

theorem search_ranking_witness:
  "\<exists>rows. search_run example_engine three_db ''notes'' [''Foo''] 1 (4 / 5) 2 1 = Inr rows \<and>
     map row_id rows = [2, 1] \<and> map matched_keywords rows = [1, 0] \<and>
     map bm25_score rows = [- 3 / 2, - 3 / 2] \<and> map final_score rows = [- 5 / 2, - 3 / 2] \<and>
     sorted (map final_score rows)"
proof -
  have h: "example_engine (memories_fts three_db) (4 / 5) 2 (sanitize ''notes'') =
      Inr [(3, - 1 / 2), (1, - 3 / 2), (2, - 3 / 2)]"
    by code_simp
  have ev: "map_sum id (map (\<lambda>r. (row_id r, matched_keywords r)))
      (search_run example_engine three_db ''notes'' [''Foo''] 1 (4 / 5) 2 1) = Inr [(2, 1), (1, 0)]"
    by code_simp
  from search_ranking [where engine = example_engine and db = three_db and boost = "[''Foo'']"
      and limit = 1 and lam = 1, OF h]
  obtain rows where run: "search_run example_engine three_db ''notes'' [''Foo''] 1 (4 / 5) 2 1 = Inr rows"
    and srt: "sorted (map final_score rows)"
    and fin: "\<forall>r \<in> set rows. final_score r = bm25_score r - 1 * real (matched_keywords r)"
    and hit: "mset rows = mset (map (with_final_score 1) (ranked three_db [''Foo''] (2 * 1)
               [(3, - 1 / 2), (1, - 3 / 2), (2, - 3 / 2)]))"
    unfolding Let_def by blast
  from ev run have ids: "map (\<lambda>r. (row_id r, matched_keywords r)) rows = [(2, 1), (1, 0)]" by simp
  then obtain r2 r1 where rows: "rows = [r2, r1]"
    and f: "row_id r2 = 2" "matched_keywords r2 = 1" "row_id r1 = 1" "matched_keywords r1 = 0"
    by auto
  have sc: "bm25_score r = - 3 / 2" if "r \<in> set rows" for r
  proof -
    from that have "r \<in># mset rows" by simp
    with hit have "r \<in> with_final_score 1 `
        set (ranked three_db [''Foo''] (2 * 1) [(3, - 1 / 2), (1, - 3 / 2), (2, - 3 / 2)])"
      by (metis in_multiset_in_set set_map)
    then obtain c where c: "c \<in> set (matches three_db [''Foo''] [(3, - 1 / 2), (1, - 3 / 2), (2, - 3 / 2)])"
      and rc: "r = with_final_score 1 c"
      unfolding ranked_def using set_take_subset by fastforce
    from matches_fields(2) [OF c] have "(row_id c, bm25_score c) \<in> {(3, - 1 / 2), (1, - 3 / 2), (2, - 3 / 2)}"
      by simp
    moreover from rc have "row_id r = row_id c" "bm25_score r = bm25_score c"
      by (simp_all add: with_final_score_def)
    moreover from that rows f have "row_id r = 1 \<or> row_id r = 2" by auto
    ultimately show ?thesis by auto
  qed
  from sc rows have b: "map bm25_score rows = [- 3 / 2, - 3 / 2]" by simp
  from fin rows f sc have "map final_score rows = [- 5 / 2, - 3 / 2]" by simp
  with run srt rows f b show ?thesis by simp
qed
section \<open>Where the code departs from the claims\<close>

text \<open>
  Claim C4 fails on the code. A keyword may contain a comma followed by a space.
  \<open>insertMemory\<close> stores it as one keyword, but \<open>get\<close> rebuilds the keyword list by joining
  the stored keywords with that separator and splitting the text again, so it returns
  two keywords that were never stored.
\<close>

theorem insert_then_get_splits_keyword:
  "insertMemory empty_srv day1 100 ''hello world'' ''first note'' (Some [''a, b'']) =
     (Inr \<lparr>inserted_id = 1, inserted_file_path = ''data/2024/01/05/first-note.md''\<rparr>,
      comma_srv) \<and>
   normalize_keywords [''a, b''] = [''a, b''] \<and>
   keywords_of (the_db comma_srv) 1 = [''a, b''] \<and>
   map_option keywords_prop (repo_get 1 (the_db comma_srv)) = Some [''a'', ''b'']"
proof -
  have p: "InsertMemorySchema_parse ''hello world'' ''first note'' (Some [''a, b'']) =
      Inr (''hello world'', ''first note'', [''a, b''])"
    by code_simp
  have s: "slug_of ''first note'' @ ''.md'' = ''first-note.md''" by code_simp
  have n: "normalize_keywords [''a, b''] = [''a, b'']" by code_simp
  have sv: "saveDated fs0 ''./data'' ''first-note.md'' ''hello world'' day1 =
      Inr (\<lparr>path = ''data/2024/01/05/first-note.md'', bytes = 11\<rparr>, example_fs)"
    by code_simp
  have ri: "repo_insert ''data/2024/01/05/first-note.md'' ''first note'' [''a, b''] 100
      (initializeSchema openDatabase) = Inr (1, comma_db)"
    by code_simp
  have k: "keywords_of (the_db comma_srv) 1 = [''a, b'']" by code_simp
  have g: "map_option keywords_prop (repo_get 1 (the_db comma_srv)) = Some [''a'', ''b'']"
    by code_simp
  have "insertMemory empty_srv day1 100 ''hello world'' ''first note'' (Some [''a, b'']) =
     (Inr \<lparr>inserted_id = 1, inserted_file_path = ''data/2024/01/05/first-note.md''\<rparr>,
      comma_srv)"
    by (simp add: insertMemory_def p s n empty_srv_def sv ri comma_srv_def Let_def)
  with n k g show ?thesis by simp
qed

lemma three_db_built:
  "(case repo_insert ''data/2024/01/05/a.md'' ''notes a'' [''bar''] 100
           (initializeSchema openDatabase) of
      Inl e \<Rightarrow> Inl e
    | Inr (i, d1) \<Rightarrow>
        (case repo_insert ''data/2024/01/05/b.md'' ''notes b'' [''foo'', ''bar''] 200 d1 of
           Inl e \<Rightarrow> Inl e
         | Inr (j, d2) \<Rightarrow> repo_insert ''data/2024/01/05/c.md'' ''notes c'' [''foo''] 300 d2)) =
   Inr (3, three_db)"
  by code_simp

lemma reachable_three_db: "reachable three_db"
proof -
  from three_db_built obtain i d1 j d2 where
    a: "repo_insert ''data/2024/01/05/a.md'' ''notes a'' [''bar''] 100
          (initializeSchema openDatabase) = Inr (i, d1)"
    and b: "repo_insert ''data/2024/01/05/b.md'' ''notes b'' [''foo'', ''bar''] 200 d1 = Inr (j, d2)"
    and c: "repo_insert ''data/2024/01/05/c.md'' ''notes c'' [''foo''] 300 d2 = Inr (3, three_db)"
    by (auto split: sum.splits prod.splits)
  from reachable.opened a have "reachable d1" by (rule reachable.inserted)
  from this b have "reachable d2" by (rule reachable.inserted)
  from this c show ?thesis by (rule reachable.inserted)
qed

text \<open>
  Claim C5 fails on the code. \<open>MemoryRepository.list\<close> returns the page in the order the
  claim states, with each row's keywords already split into an array. The handler
  \<open>listMemories\<close> calls \<open>split\<close> on that array again, which throws a \<open>TypeError\<close> for every
  page that holds a row: over three records the first page is never returned. Only an
  empty page comes back with its pagination data.
\<close>

theorem listMemories_type_error:
  "reachable (the_db three_srv) \<and>
   map row_id (repo_list 1 0 (the_db three_srv)) = [3] \<and>
   map row_id (repo_list 1 1 (the_db three_srv)) = [2] \<and>
   repo_count (the_db three_srv) = 3 \<and>
   listMemories three_srv 1 0 = Inl (TypeError ''m.keywords.split is not a function'') \<and>
   listMemories three_srv 1 1 = Inl (TypeError ''m.keywords.split is not a function'') \<and>
   listMemories three_srv 1 3 =
     Inr ([], \<lparr>total = 3, page_limit = 1, page_offset = 3, has_more = False\<rparr>)"
proof -
  have "reachable (the_db three_srv)"
    using reachable_three_db by (simp add: three_srv_def)
  moreover have "map row_id (repo_list 1 0 (the_db three_srv)) = [3] \<and>
   map row_id (repo_list 1 1 (the_db three_srv)) = [2] \<and>
   repo_count (the_db three_srv) = 3 \<and>
   listMemories three_srv 1 0 = Inl (TypeError ''m.keywords.split is not a function'') \<and>
   listMemories three_srv 1 1 = Inl (TypeError ''m.keywords.split is not a function'') \<and>
   listMemories three_srv 1 3 =
     Inr ([], \<lparr>total = 3, page_limit = 1, page_offset = 3, has_more = False\<rparr>)"
    by code_simp
  ultimately show ?thesis by simp
qed

text \<open>
  Claim C10 fails on the code where file names are case-sensitive. The handler compares
  the lower-cased resolved target with the lower-cased resolved root, so a path below
  \<open>/srv/DATA\<close> passes the check of the content root \<open>/srv/data\<close> although it does not
  resolve inside it, and the file is read.
\<close>

theorem readFile_reads_outside_root:
  "path_resolve (cwd (the_fs leak_srv)) (baseContentDir leak_srv) = ''/srv/data'' \<and>
   path_resolve (cwd (the_fs leak_srv)) ''/srv/DATA/secret.md'' = ''/srv/DATA/secret.md'' \<and>
   \<not> startsWith ''/srv/DATA/secret.md'' (''/srv/data'' @ sep) \<and>
   readFile leak_srv ''/srv/DATA/secret.md'' =
     Inr \<lparr>read_file_path = ''/srv/DATA/secret.md'', read_file_contents = Some ''top secret'',
          read_file_exists = True\<rparr>"
proof -
  have b: "path_resolve (cwd (the_fs leak_srv)) (baseContentDir leak_srv) = ''/srv/data''"
    by code_simp
  have t: "path_resolve (cwd (the_fs leak_srv)) ''/srv/DATA/secret.md'' = ''/srv/DATA/secret.md''"
    by code_simp
  have n: "\<not> startsWith ''/srv/DATA/secret.md'' (''/srv/data'' @ sep)" by code_simp
  have w: "startsWith (toLowerCase ''/srv/DATA/secret.md'') (toLowerCase (''/srv/data'' @ sep))"
    by code_simp
  have "lookup (the_fs leak_srv) ''/srv/DATA/secret.md'' = Some (File ''top secret'' True)"
    by code_simp
  then have r: "readLimited (the_fs leak_srv) ''/srv/DATA/secret.md'' default_limitBytes =
      \<lparr>file_exists = True, file_size = Some 10, file_contents = Some ''top secret''\<rparr>"
    using readLimited_readable [of "the_fs leak_srv" "''/srv/DATA/secret.md''" "''top secret''"
        default_limitBytes]
    by (simp add: default_limitBytes_def)
  have "readFile leak_srv ''/srv/DATA/secret.md'' =
     Inr \<lparr>read_file_path = ''/srv/DATA/secret.md'', read_file_contents = Some ''top secret'',
          read_file_exists = True\<rparr>"
    unfolding readFile_def Let_def b t using w r by simp
  with b t n show ?thesis by simp
qed

end
